theory Spec2Isabelle
  imports Complex_Main "HOL-Library.Sublist" "HOL-Library.Multiset"
begin

section \<open>Python values\<close>

text \<open>
  A Python \<^verbatim>\<open>str\<close> is a sequence of Unicode code points, and every operation of
  \<^verbatim>\<open>main.py\<close> on strings (slicing, \<^verbatim>\<open>replace\<close>, \<^verbatim>\<open>split\<close>, the regular
  expressions) counts code points. A string is therefore a list of code points, each a
  natural number; \<open>str\<close> turns an ASCII literal into one.
\<close>

type_synonym ustr = "nat list"

definition str :: "string \<Rightarrow> ustr" where
  "str s = map of_char s"

text \<open>The exceptions that the modelled code can raise.\<close>

datatype error =
    KeyError
  | AttributeError
  | IndexError
  | ValueError
  | HTTPError
  | ConnectionError

subsection \<open>String methods\<close>

text \<open>\<^verbatim>\<open>sub in s\<close>: \<open>sub\<close> occurs in \<open>s\<close> as a contiguous run.\<close>

fun contains :: "ustr \<Rightarrow> ustr \<Rightarrow> bool" where
  "contains [] sub = (sub = [])"
| "contains (c # s) sub = (prefix sub (c # s) \<or> contains s sub)"

text \<open>\<^verbatim>\<open>s.startswith(p)\<close>.\<close>

definition startswith :: "ustr \<Rightarrow> ustr \<Rightarrow> bool" where
  "startswith s p = prefix p s"

text \<open>\<^verbatim>\<open>s.rstrip(chars)\<close>: every trailing character that is one of \<open>chars\<close> goes.\<close>

definition rstrip :: "ustr \<Rightarrow> ustr \<Rightarrow> ustr" where
  "rstrip s chars = rev (dropWhile (\<lambda>x. x \<in> set chars) (rev s))"

text \<open>
  \<^verbatim>\<open>s.replace(old, new)\<close>: the occurrences of \<open>old\<close> are found from the left and do not
  overlap. With an empty \<open>old\<close>, Python puts \<open>new\<close> before every character and at the end.
\<close>

function replace :: "ustr \<Rightarrow> ustr \<Rightarrow> ustr \<Rightarrow> ustr" where
  "replace [] old new = (if old = [] then new else [])"
| "replace (c # s) old new =
     (if old = [] then new @ c # replace s old new
      else if prefix old (c # s) then new @ replace (drop (length old) (c # s)) old new
      else c # replace s old new)"
  by pat_completeness auto
termination
  by (relation "measure (\<lambda>(s, old, new). length s)") auto

text \<open>
  \<^verbatim>\<open>s.split(sep)\<close>: the pieces between the occurrences of \<open>sep\<close>, found from the left;
  an empty separator is a \<^verbatim>\<open>ValueError\<close>. \<open>cur\<close> is the piece being read.
\<close>

function split_loop :: "ustr \<Rightarrow> ustr \<Rightarrow> ustr \<Rightarrow> ustr list" where
  "split_loop [] sep cur = [cur]"
| "split_loop (c # s) sep cur =
     (if sep \<noteq> [] \<and> prefix sep (c # s) then cur # split_loop (drop (length sep) (c # s)) sep []
      else split_loop s sep (cur @ [c]))"
  by pat_completeness auto
termination
  by (relation "measure (\<lambda>(s, sep, cur). length s)") auto

definition split :: "ustr \<Rightarrow> ustr \<Rightarrow> error + ustr list" where
  "split s sep = (if sep = [] then Inl ValueError else Inr (split_loop s sep []))"

text \<open>\<^verbatim>\<open>xs[i]\<close> for \<open>i \<ge> 0\<close>: an \<^verbatim>\<open>IndexError\<close> out of range.\<close>

definition index :: "'a list \<Rightarrow> nat \<Rightarrow> error + 'a" where
  "index xs i = (if i < length xs then Inr (xs ! i) else Inl IndexError)"

text \<open>\<^verbatim>\<open>sep.join(xs)\<close>.\<close>

fun join :: "ustr \<Rightarrow> ustr list \<Rightarrow> ustr" where
  "join sep [] = []"
| "join sep [x] = x"
| "join sep (x # y # xs) = x @ sep @ join sep (y # xs)"

section \<open>Unicode tables\<close>

text \<open>
  The code points whose decimal digit value is 0 (Unicode 14.0, as in CPython 3.11); the
  nine code points after each of them are the digits 1 to 9 of the same script.
\<close>

definition decimal_zeros :: "nat list" where
  "decimal_zeros =
     [0x30, 0x660, 0x6F0, 0x7C0, 0x966, 0x9E6, 0xA66, 0xAE6,
      0xB66, 0xBE6, 0xC66, 0xCE6, 0xD66, 0xDE6, 0xE50, 0xED0,
      0xF20, 0x1040, 0x1090, 0x17E0, 0x1810, 0x1946, 0x19D0, 0x1A80,
      0x1A90, 0x1B50, 0x1BB0, 0x1C40, 0x1C50, 0xA620, 0xA8D0, 0xA900,
      0xA9D0, 0xA9F0, 0xAA50, 0xABF0, 0xFF10, 0x104A0, 0x10D30, 0x11066,
      0x110F0, 0x11136, 0x111D0, 0x112F0, 0x11450, 0x114D0, 0x11650, 0x116C0,
      0x11730, 0x118E0, 0x11950, 0x11C50, 0x11D50, 0x11DA0, 0x16A60, 0x16AC0,
      0x16B50, 0x1D7CE, 0x1D7D8, 0x1D7E2, 0x1D7EC, 0x1D7F6, 0x1E140, 0x1E2F0,
      0x1E950, 0x1FBF0]"

fun decimal_in :: "nat list \<Rightarrow> nat \<Rightarrow> nat option" where
  "decimal_in [] c = None"
| "decimal_in (z # zs) c = (if z \<le> c \<and> c < z + 10 then Some (c - z) else decimal_in zs c)"

text \<open>\<^verbatim>\<open>Py_UNICODE_TODECIMAL\<close> and \<^verbatim>\<open>Py_UNICODE_ISDECIMAL\<close>; the latter is \<^verbatim>\<open>\d\<close> of \<^verbatim>\<open>re\<close>.\<close>

definition todecimal :: "nat \<Rightarrow> nat option" where
  "todecimal c = decimal_in decimal_zeros c"

definition is_decimal :: "nat \<Rightarrow> bool" where
  "is_decimal c = (todecimal c \<noteq> None)"

text \<open>\<^verbatim>\<open>Py_UNICODE_ISSPACE\<close> beyond ASCII, and \<^verbatim>\<open>Py_ISSPACE\<close> of the C locale.\<close>

definition unicode_space :: "nat \<Rightarrow> bool" where
  "unicode_space c =
     (c \<in> set [0x85, 0xA0, 0x1680, 0x2028, 0x2029, 0x202F, 0x205F, 0x3000]
      \<or> (0x2000 \<le> c \<and> c \<le> 0x200A))"

definition ascii_space :: "nat \<Rightarrow> bool" where
  "ascii_space c = (c = 0x20 \<or> (0x09 \<le> c \<and> c \<le> 0x0D))"

definition ascii_digit :: "nat \<Rightarrow> bool" where
  "ascii_digit c = (0x30 \<le> c \<and> c \<le> 0x39)"

section \<open>Regular expressions\<close>

text \<open>
  The three patterns of the program use single characters, the class \<^verbatim>\<open>\d\<close>, a set
  \<^verbatim>\<open>[\d\.]\<close>, the greedy quantifiers \<^verbatim>\<open>?\<close> and \<^verbatim>\<open>+\<close> on one of these, and groups that
  are not nested. A class is a list of alternatives, a pattern a list of elements.
\<close>

datatype citem = Lit nat | Dec

fun citem_ok :: "citem \<Rightarrow> nat \<Rightarrow> bool" where
  "citem_ok (Lit a) c = (c = a)"
| "citem_ok Dec c = is_decimal c"

definition cls_ok :: "citem list \<Rightarrow> nat \<Rightarrow> bool" where
  "cls_ok cls c = list_ex (\<lambda>i. citem_ok i c) cls"

datatype elem = One "citem list" | Opt "citem list" | Plus "citem list" | GOpen | GClose

text \<open>
  The backtracking matcher of \<^verbatim>\<open>re\<close>, anchored at the start of \<open>s\<close>: the first way to
  match in the order that tries a greedy quantifier's longest repetition first. \<open>opn\<close>
  is the input as it was where the open group began, \<open>caps\<close> the texts of the groups
  closed so far. The result is the groups and the input left after the match.
\<close>

fun match_here :: "elem list \<Rightarrow> ustr \<Rightarrow> ustr option \<Rightarrow> ustr list \<Rightarrow> (ustr list \<times> ustr) option" where
  "match_here [] s opn caps = Some (caps, s)"
| "match_here (GOpen # p) s opn caps = match_here p s (Some s) caps"
| "match_here (GClose # p) s opn caps =
     (case opn of
        None \<Rightarrow> None
      | Some s0 \<Rightarrow> match_here p s None (caps @ [take (length s0 - length s) s0]))"
| "match_here (One c # p) [] opn caps = None"
| "match_here (One c # p) (x # xs) opn caps = (if cls_ok c x then match_here p xs opn caps else None)"
| "match_here (Opt c # p) [] opn caps = match_here p [] opn caps"
| "match_here (Opt c # p) (x # xs) opn caps =
     (if cls_ok c x
      then (case match_here p xs opn caps of Some r \<Rightarrow> Some r | None \<Rightarrow> match_here p (x # xs) opn caps)
      else match_here p (x # xs) opn caps)"
| "match_here (Plus c # p) [] opn caps = None"
| "match_here (Plus c # p) (x # xs) opn caps =
     (if cls_ok c x
      then (case match_here (Plus c # p) xs opn caps of Some r \<Rightarrow> Some r | None \<Rightarrow> match_here p xs opn caps)
      else None)"

text \<open>\<^verbatim>\<open>re.match(p, s)\<close>: the groups of the match at the start of \<open>s\<close>, if any.\<close>

definition re_match :: "elem list \<Rightarrow> ustr \<Rightarrow> ustr list option" where
  "re_match p s = map_option fst (match_here p s None [])"

text \<open>\<^verbatim>\<open>re.search(p, s)\<close>: the groups of the first match, trying each start from the left.\<close>

fun re_search :: "elem list \<Rightarrow> ustr \<Rightarrow> ustr list option" where
  "re_search p [] = map_option fst (match_here p [] None [])"
| "re_search p (x # xs) =
     (case match_here p (x # xs) None [] of Some r \<Rightarrow> Some (fst r) | None \<Rightarrow> re_search p xs)"

text \<open>
  \<^verbatim>\<open>re.findall(p, s)\<close> for a pattern without groups: the texts of the matches from the
  left, none overlapping; after an empty match the scan moves on by one character.
\<close>

function findall :: "elem list \<Rightarrow> ustr \<Rightarrow> ustr list" where
  "findall p s =
     (case match_here p s None [] of
        None \<Rightarrow> (case s of [] \<Rightarrow> [] | x # xs \<Rightarrow> findall p xs)
      | Some r \<Rightarrow>
          if length (snd r) < length s
          then take (length s - length (snd r)) s # findall p (snd r)
          else [] # (case s of [] \<Rightarrow> [] | x # xs \<Rightarrow> findall p xs))"
  by pat_completeness auto
termination
  by (relation "measure (\<lambda>(p, s). length s)") auto

section \<open>float\<close>

text \<open>
  A Python \<^verbatim>\<open>float\<close> is an IEEE 754 double: a rational of the form \<open>n \<cdot> 2\<^sup>q\<close>, an
  infinity or a NaN. Zero's sign plays no part in the program and is not kept.
\<close>

datatype pyfloat = Finite rat | PosInf | NegInf | NaN

text \<open>\<^verbatim>\<open>x < n\<close> for a float \<open>x\<close> and an integer literal \<open>n\<close>; a NaN compares false.\<close>

fun flt :: "pyfloat \<Rightarrow> int \<Rightarrow> bool" where
  "flt (Finite r) n = (r < of_int n)"
| "flt PosInf n = False"
| "flt NegInf n = True"
| "flt NaN n = False"

text \<open>\<^verbatim>\<open>x >= n\<close> for a float \<open>x\<close> and an integer \<open>n\<close>.\<close>

fun fge :: "pyfloat \<Rightarrow> int \<Rightarrow> bool" where
  "fge (Finite r) n = (of_int n \<le> r)"
| "fge PosInf n = True"
| "fge NegInf n = False"
| "fge NaN n = False"

text \<open>\<^verbatim>\<open>x < y\<close> on floats, as \<^verbatim>\<open>list.sort\<close> uses it.\<close>

fun float_less :: "pyfloat \<Rightarrow> pyfloat \<Rightarrow> bool" where
  "float_less NaN y = False"
| "float_less x NaN = False"
| "float_less PosInf y = False"
| "float_less NegInf y = (y \<noteq> NegInf)"
| "float_less (Finite a) (Finite b) = (a < b)"
| "float_less (Finite a) PosInf = True"
| "float_less (Finite a) NegInf = False"

text \<open>The number of binary digits of \<open>n\<close>.\<close>

function bit_length :: "nat \<Rightarrow> nat" where
  "bit_length n = (if n = 0 then 0 else Suc (bit_length (n div 2)))"
  by pat_completeness auto
termination
  by (relation "measure id") auto

declare bit_length.simps [simp del]

definition pow2 :: "int \<Rightarrow> rat" where
  "pow2 q = (if 0 \<le> q then 2 ^ nat q else 1 / 2 ^ nat (- q))"

text \<open>
  The double nearest to \<open>num / den\<close> for \<open>num > 0\<close> and \<open>den > 0\<close>, ties to the even
  significand: \<open>k\<close> is the binary exponent of the quotient, \<open>q\<close> the exponent of the
  last place of a double of that size (no smaller than \<open>-1074\<close>, where the subnormal
  numbers lie), \<open>n\<close> the quotient in units of \<open>2\<^sup>q\<close>, rounded. A result of \<open>2\<^sup>1\<^sup>0\<^sup>2\<^sup>4\<close>
  or more is an infinity.
\<close>

definition round_to_double :: "nat \<Rightarrow> nat \<Rightarrow> pyfloat" where
  "round_to_double num den =
     (let k0 = int (bit_length num) - int (bit_length den);
          k = (if (if 0 \<le> k0 then den * 2 ^ nat k0 \<le> num else den \<le> num * 2 ^ nat (- k0))
               then k0 else k0 - 1);
          q = max k (- 1022) - 52;
          a = (if 0 \<le> q then num else num * 2 ^ nat (- q));
          b = (if 0 \<le> q then den * 2 ^ nat q else den);
          n0 = a div b;
          r = a mod b;
          n = (if 2 * r < b then n0 else if b < 2 * r then n0 + 1
               else if even n0 then n0 else n0 + 1)
      in if 0 \<le> q \<and> 2 ^ 1024 \<le> n * 2 ^ nat q then PosInf
         else Finite (of_nat n * pow2 q))"

fun negate :: "pyfloat \<Rightarrow> pyfloat" where
  "negate (Finite r) = Finite (- r)"
| "negate PosInf = NegInf"
| "negate NegInf = PosInf"
| "negate NaN = NaN"

text \<open>The double of \<open>\<plusminus> mant \<cdot> 10\<^sup>e\<close>.\<close>

definition decimal_to_double :: "bool \<Rightarrow> nat \<Rightarrow> int \<Rightarrow> pyfloat" where
  "decimal_to_double neg mant e =
     (let x = (if mant = 0 then Finite 0
               else if 0 \<le> e then round_to_double (mant * 10 ^ nat e) 1
               else round_to_double mant (10 ^ nat (- e)))
      in if neg then negate x else x)"

text \<open>
  \<^verbatim>\<open>float(s)\<close> on a string, step by step as CPython does it. First every space beyond
  ASCII becomes a blank and every decimal digit its ASCII digit; at any other character
  beyond ASCII the text is cut and ends in a question mark.
\<close>

fun transform_decimal_and_space :: "ustr \<Rightarrow> ustr" where
  "transform_decimal_and_space [] = []"
| "transform_decimal_and_space (c # s) =
     (if c < 127 then c # transform_decimal_and_space s
      else if unicode_space c then 0x20 # transform_decimal_and_space s
      else (case todecimal c of
              None \<Rightarrow> [0x3F]
            | Some d \<Rightarrow> (0x30 + d) # transform_decimal_and_space s))"

text \<open>An underscore must stand between two ASCII digits; \<open>prev\<close> is the character before.\<close>

fun underscores_ok :: "nat \<Rightarrow> ustr \<Rightarrow> bool" where
  "underscores_ok prev [] = (prev \<noteq> 0x5F)"
| "underscores_ok prev (c # s) =
     ((if c = 0x5F then ascii_digit prev else prev \<noteq> 0x5F \<or> ascii_digit c)
      \<and> underscores_ok c s)"

definition remove_underscores :: "ustr \<Rightarrow> ustr option" where
  "remove_underscores s =
     (if 0x5F \<notin> set s then Some s
      else if underscores_ok 0 s then Some (filter (\<lambda>c. c \<noteq> 0x5F) s)
      else None)"

text \<open>Leading and trailing white space goes; a text of white space only is refused.\<close>

definition strip_space :: "ustr \<Rightarrow> ustr option" where
  "strip_space s =
     (let s1 = dropWhile ascii_space s
      in if s1 = [] then None else Some (rev (dropWhile ascii_space (rev s1))))"

definition digits_value :: "ustr \<Rightarrow> nat" where
  "digits_value ds = foldl (\<lambda>a c. 10 * a + (c - 0x30)) 0 ds"

text \<open>An optional sign: whether it is a minus, and the text after it.\<close>

fun sign_of :: "ustr \<Rightarrow> bool \<times> ustr" where
  "sign_of [] = (False, [])"
| "sign_of (c # s) = (if c = 0x2D then (True, s) else if c = 0x2B then (False, s) else (False, c # s))"

text \<open>
  The exponent part: nothing, or \<^verbatim>\<open>e\<close> or \<^verbatim>\<open>E\<close>, an optional sign and at least one
  digit, up to the end of the text.
\<close>

definition exponent_of :: "ustr \<Rightarrow> int option" where
  "exponent_of s =
     (case s of
        [] \<Rightarrow> Some 0
      | c # t \<Rightarrow>
          if c = 0x65 \<or> c = 0x45
          then (let (neg, ds) = sign_of t
                in if ds \<noteq> [] \<and> list_all ascii_digit ds
                   then Some (if neg then - int (digits_value ds) else int (digits_value ds))
                   else None)
          else None)"

text \<open>
  A decimal numeral: optional sign, digits, optional point and digits (a digit at least on
  one side of the point), optional exponent.
\<close>

definition parse_decimal :: "ustr \<Rightarrow> pyfloat option" where
  "parse_decimal s =
     (let (neg, s1) = sign_of s;
          ip = takeWhile ascii_digit s1;
          s2 = dropWhile ascii_digit s1;
          fp = (case s2 of [] \<Rightarrow> [] | c # t \<Rightarrow> if c = 0x2E then takeWhile ascii_digit t else []);
          s3 = (case s2 of [] \<Rightarrow> [] | c # t \<Rightarrow> if c = 0x2E then dropWhile ascii_digit t else s2)
      in if ip @ fp = [] then None
         else (case exponent_of s3 of
                 None \<Rightarrow> None
               | Some e \<Rightarrow> Some (decimal_to_double neg (digits_value (ip @ fp)) (e - int (length fp)))))"

definition tolower :: "nat \<Rightarrow> nat" where
  "tolower c = (if 0x41 \<le> c \<and> c \<le> 0x5A then c + 0x20 else c)"

definition parse_inf_or_nan :: "ustr \<Rightarrow> pyfloat option" where
  "parse_inf_or_nan s =
     (let (neg, s1) = sign_of s; l = map tolower s1
      in if l = str ''inf'' \<or> l = str ''infinity'' then Some (if neg then NegInf else PosInf)
         else if l = str ''nan'' then Some NaN
         else None)"

definition py_float :: "ustr \<Rightarrow> error + pyfloat" where
  "py_float s =
     (case remove_underscores (transform_decimal_and_space s) of
        None \<Rightarrow> Inl ValueError
      | Some s1 \<Rightarrow>
          (case strip_space s1 of
             None \<Rightarrow> Inl ValueError
           | Some s2 \<Rightarrow>
               (case parse_decimal s2 of
                  Some x \<Rightarrow> Inr x
                | None \<Rightarrow>
                    (case parse_inf_or_nan s2 of
                       Some x \<Rightarrow> Inr x
                     | None \<Rightarrow> Inl ValueError))))"

section \<open>The fetch cache\<close>

text \<open>
  The world that \<^verbatim>\<open>fetch_with_cache\<close> reads and writes: the files under the working
  directory (a map from path to text) and the log of the URLs requested over HTTP so far.
\<close>

record world =
  files :: "ustr \<rightharpoonup> ustr"
  requests :: "ustr list"

record response =
  status_code :: nat
  resp_text :: ustr

text \<open>
  What the program takes from its libraries and its surroundings:
  \<^item> \<open>md5_hexdigest url\<close> stands for \<^verbatim>\<open>hashlib.md5(url.encode("utf-8")).hexdigest()\<close>;
  \<^item> \<open>http_get n url\<close> is what \<^verbatim>\<open>requests.get(url)\<close> does when it is the \<open>n\<close>-th request
    of the run: it raises (a transport failure) or returns a response;
  \<^item> \<open>select_mounts content\<close> is \<^verbatim>\<open>BeautifulSoup(content, "html.parser")\<close> followed by
    \<^verbatim>\<open>select("li.voi-type__item a.voi-type__item-link")\<close>, see \<open>mount_item\<close>;
  \<^item> \<open>anchors content\<close> lists, in document order, the \<^verbatim>\<open>href\<close> of every \<^verbatim>\<open>a\<close> element of
    the parsed page that has one.
\<close>

record mount_item =
  href :: "ustr option"
  item_name :: "ustr option"

record env =
  md5_hexdigest :: "ustr \<Rightarrow> ustr"
  http_get :: "nat \<Rightarrow> ustr \<Rightarrow> error + response"
  select_mounts :: "ustr \<Rightarrow> mount_item list"
  anchors :: "ustr \<Rightarrow> ustr list"

definition BASE_URL :: ustr where
  "BASE_URL = str ''https://www.cosina.co.jp/voigtlander/''"

definition CACHE_DIR :: ustr where
  "CACHE_DIR = str ''cache''"

text \<open>\<^verbatim>\<open>os.path.join(a, b)\<close> on a POSIX system.\<close>

definition path_join :: "ustr \<Rightarrow> ustr \<Rightarrow> ustr" where
  "path_join a b =
     (if startswith b (str ''/'') then b
      else if a = [] \<or> suffix (str ''/'') a then a @ b
      else a @ str ''/'' @ b)"

definition cache_path :: "env \<Rightarrow> ustr \<Rightarrow> ustr" where
  "cache_path e url = path_join CACHE_DIR (md5_hexdigest e url @ str ''.html'')"

text \<open>\<^verbatim>\<open>response.raise_for_status()\<close> raises for the status codes 400 to 599.\<close>

definition raise_for_status :: "response \<Rightarrow> error + unit" where
  "raise_for_status r =
     (if 400 \<le> status_code r \<and> status_code r < 600 then Inl HTTPError else Inr ())"

definition fetch_with_cache :: "env \<Rightarrow> ustr \<Rightarrow> world \<Rightarrow> (error + ustr) \<times> world" where
  "fetch_with_cache e url w =
     (case files w (cache_path e url) of
        Some body \<Rightarrow> (Inr body, w)
      | None \<Rightarrow>
          (let w1 = w\<lparr>requests := requests w @ [url]\<rparr> in
           case http_get e (length (requests w)) url of
             Inl err \<Rightarrow> (Inl err, w1)
           | Inr r \<Rightarrow>
               (case raise_for_status r of
                  Inl err \<Rightarrow> (Inl err, w1)
                | Inr _ \<Rightarrow>
                    (Inr (resp_text r), w1\<lparr>files := (files w1)(cache_path e url \<mapsto> resp_text r)\<rparr>))))"

section \<open>The site navigator\<close>

text \<open>
  One element of the mount listing: its \<^verbatim>\<open>href\<close> attribute when it has one
  (\<^verbatim>\<open>item["href"]\<close> is a \<^verbatim>\<open>KeyError\<close> otherwise) and the stripped text of its first
  descendant of class \<^verbatim>\<open>voi-type__item-name\<close> when there is one (\<^verbatim>\<open>select_one\<close> returns
  \<^verbatim>\<open>None\<close> otherwise, and \<^verbatim>\<open>get_text\<close> on it is an \<^verbatim>\<open>AttributeError\<close>).
\<close>

fun mount_loop :: "mount_item list \<Rightarrow> (ustr \<rightharpoonup> ustr) \<Rightarrow> error + (ustr \<rightharpoonup> ustr)" where
  "mount_loop [] mounts = Inr mounts"
| "mount_loop (item # items) mounts =
     (case href item of
        None \<Rightarrow> Inl KeyError
      | Some url \<Rightarrow>
          (case item_name item of
             None \<Rightarrow> Inl AttributeError
           | Some mount_name \<Rightarrow>
               if mount_name = str ''ACCESSORIES'' then mount_loop items mounts
               else mount_loop items (mounts(mount_name \<mapsto> url))))"

definition get_mount_pages :: "env \<Rightarrow> world \<Rightarrow> (error + (ustr \<rightharpoonup> ustr)) \<times> world" where
  "get_mount_pages e w =
     (case fetch_with_cache e BASE_URL w of
        (Inl err, w') \<Rightarrow> (Inl err, w')
      | (Inr content, w') \<Rightarrow> (mount_loop (select_mounts e content) Map.empty, w'))"

text \<open>
  \<^verbatim>\<open>soup.select('a[href*="voigtlander"]')\<close>: the anchors whose \<^verbatim>\<open>href\<close> contains the
  product-line marker.
\<close>

definition select_voigtlander :: "env \<Rightarrow> ustr \<Rightarrow> ustr list" where
  "select_voigtlander e content =
     filter (\<lambda>h. contains h (str ''voigtlander'')) (anchors e content)"

fun lens_link_loop :: "ustr list \<Rightarrow> ustr \<Rightarrow> ustr set \<Rightarrow> ustr set" where
  "lens_link_loop [] mount_url lens_links = lens_links"
| "lens_link_loop (link # as) mount_url lens_links =
     (if startswith link mount_url \<and> rstrip link (str ''/'') \<noteq> rstrip mount_url (str ''/'')
      then lens_link_loop as mount_url (insert link lens_links)
      else lens_link_loop as mount_url lens_links)"

definition get_lens_links :: "env \<Rightarrow> ustr \<Rightarrow> world \<Rightarrow> (error + ustr set) \<times> world" where
  "get_lens_links e mount_url w =
     (case fetch_with_cache e mount_url w of
        (Inl err, w') \<Rightarrow> (Inl err, w')
      | (Inr content, w') \<Rightarrow> (Inr (lens_link_loop (select_voigtlander e content) mount_url {}), w'))"

section \<open>The field normalizers\<close>

text \<open>\<^verbatim>\<open>(\d+)\<close>, U+7FA4, \<^verbatim>\<open>(\d+)\<close>, U+679A: groups, then elements.\<close>

definition lens_const_re :: "elem list" where
  "lens_const_re =
     [GOpen, Plus [Dec], GClose, One [Lit 0x7FA4], GOpen, Plus [Dec], GClose, One [Lit 0x679A]]"

text \<open>\<^verbatim>\<open>[\d\.]+\<close>\<close>

definition numeric_re :: "elem list" where
  "numeric_re = [Plus [Dec, Lit 0x2E]]"

text \<open>\<^verbatim>\<open>1 ?: ?([\d\.]+)\<close>\<close>

definition f_number_re :: "elem list" where
  "f_number_re =
     [One [Lit 0x31], Opt [Lit 0x20], One [Lit 0x3A], Opt [Lit 0x20],
      GOpen, Plus [Dec, Lit 0x2E], GClose]"

text \<open>
  Unpacking \<^verbatim>\<open>groups_elements.groups()\<close> into two names is a \<^verbatim>\<open>ValueError\<close> unless
  there are exactly two groups.
\<close>

definition format_lens_const :: "ustr \<Rightarrow> error + ustr" where
  "format_lens_const japanese_const =
     (case re_match lens_const_re japanese_const of
        Some groups_elements \<Rightarrow>
          (case groups_elements of
             [groups, elements] \<Rightarrow> Inr (elements @ str ''e/'' @ groups @ str ''g'')
           | _ \<Rightarrow> Inl ValueError)
      | None \<Rightarrow> Inr japanese_const)"

definition format_cvt :: "ustr \<Rightarrow> ustr \<Rightarrow> error + ustr" where
  "format_cvt value unit =
     (let numeric_values = findall numeric_re value;
          unit_target = (case [str ''m'' \<mapsto> str ''m|ft''] unit of Some t \<Rightarrow> t | None \<Rightarrow> unit)
      in if contains value [0xD7]
         then Inr (str ''{{cvt|'' @ join (str ''|'' @ [0xD7] @ str ''|'') numeric_values
                   @ str ''|'' @ unit_target @ str ''}}'')
         else if numeric_values \<noteq> []
         then (case index numeric_values 0 of
                 Inl err \<Rightarrow> Inl err
               | Inr n \<Rightarrow> Inr (str ''{{cvt|'' @ n @ str ''|'' @ unit_target @ str ''}}''))
         else Inr value)"

definition format_f_number :: "ustr \<Rightarrow> error + ustr" where
  "format_f_number value =
     (case re_search f_number_re value of
        Some groups \<Rightarrow>
          (case index groups 0 of
             Inl err \<Rightarrow> Inl err
           | Inr g \<Rightarrow> Inr (str ''{{f/|'' @ g @ str ''}}''))
      | None \<Rightarrow> Inr value)"

text \<open>The marker of the full-frame equivalent, eight code points ending in a colon.\<close>

definition dx :: ustr where
  "dx = [0x30D5, 0x30EB, 0x30B5, 0x30A4, 0x30BA, 0x63DB, 0x7B97, 0x3A]"

text \<open>The chain of comparisons that picks the background colour of a focal length.\<close>

definition color_of :: "pyfloat \<Rightarrow> ustr" where
  "color_of ff_value =
     (if flt ff_value 21 then str ''fdd''
      else if flt ff_value 40 then str ''fed''
      else if flt ff_value 65 then str ''ffd''
      else str ''dfd'')"

definition format_focal :: "ustr \<Rightarrow> error + ustr" where
  \<open>format_focal value0 =
     (let value1 = replace value0 (str ''mm'') [];
          value2 = replace value1 [0x7D04] []
      in if contains value2 dx
         then (case split value2 dx of
                 Inl err \<Rightarrow> Inl err
               | Inr parts \<Rightarrow>
                   (case index parts 1 of
                      Inl err \<Rightarrow> Inl err
                    | Inr part \<Rightarrow>
                        (let ff_text = butlast part;
                             value3 = replace value2 dx (str ''full frame equivalent: '');
                             preamble = str ''data-sort-value="'' @ ff_text @ str ''"''
                         in case py_float ff_text of
                              Inl err \<Rightarrow> Inl err
                            | Inr ff_value \<Rightarrow>
                                Inr (str ''! style = "background:#'' @ color_of ff_value @ str '';" ''
                                     @ preamble @ str ''|'' @ value3))))
         else (case py_float value2 of
                 Inl err \<Rightarrow> Inl err
               | Inr ff_value \<Rightarrow>
                   Inr (str ''! style = "background:#'' @ color_of ff_value @ str '';" ''
                        @ [] @ str ''|'' @ value2)))\<close>

text \<open>
  Two steps of \<open>format_focal\<close> by name: the value without its unit and its
  ``approximately'' mark, and the text that goes to \<^verbatim>\<open>float\<close>.
\<close>

definition strip_units :: "ustr \<Rightarrow> ustr" where
  "strip_units value0 = replace (replace value0 (str ''mm'') []) [0x7D04] []"

definition sort_text :: "ustr \<Rightarrow> ustr" where
  "sort_text value0 =
     (if contains (strip_units value0) dx
      then butlast (split_loop (strip_units value0) dx [] ! 1)
      else strip_units value0)"

text \<open>
  For the properties of \<open>format_f_number\<close>: a text without its first character when that is
  a blank, and what it means that the pattern \<^verbatim>\<open>1 ?: ?[\d\.]+\<close> occurs in a text.
\<close>

definition skip_space :: "ustr \<Rightarrow> ustr" where
  "skip_space w = (case w of [] \<Rightarrow> [] | c # t \<Rightarrow> if c = 0x20 then t else c # t)"

abbreviation f_number_present :: "ustr \<Rightarrow> bool" where
  "f_number_present s \<equiv>
     (\<exists>pre sp1 sp2 c rest. (sp1 = [] \<or> sp1 = [0x20]) \<and> (sp2 = [] \<or> sp2 = [0x20])
        \<and> (is_decimal c \<or> c = 0x2E)
        \<and> s = pre @ [0x31] @ sp1 @ [0x3A] @ sp2 @ [c] @ rest)"

section \<open>The table renderer\<close>

text \<open>A lens record is a dictionary from field names to texts.\<close>

type_synonym lens = "ustr \<rightharpoonup> ustr"

text \<open>\<^verbatim>\<open>d.get(k, default)\<close>, and \<^verbatim>\<open>d.get(k)\<close> as an f-string prints it.\<close>

definition get_default :: "lens \<Rightarrow> ustr \<Rightarrow> ustr \<Rightarrow> ustr" where
  "get_default d k dflt = (case d k of Some v \<Rightarrow> v | None \<Rightarrow> dflt)"

definition get_printed :: "lens \<Rightarrow> ustr \<Rightarrow> ustr" where
  "get_printed d k = (case d k of Some v \<Rightarrow> v | None \<Rightarrow> str ''None'')"

text \<open>The sort key: the first \<^verbatim>\<open>[\d\.]+\<close> token of the focal length, as a float.\<close>

definition focal_key :: "lens \<Rightarrow> error + pyfloat" where
  "focal_key x =
     (case index (findall numeric_re (get_default x (str ''focal_length'') (str ''0''))) 0 of
        Inl err \<Rightarrow> Inl err
      | Inr token \<Rightarrow> py_float token)"

text \<open>
  \<^verbatim>\<open>list.sort(key=f)\<close> first computes the key of every element, in order, and raises what
  the first failing key raises; then it sorts by the keys with \<^verbatim>\<open><\<close>, keeping elements
  of equal key in their order. The sort is modelled by insertion from the right; wherever
  \<^verbatim>\<open><\<close> orders the keys totally, every stable sort returns the same list.
\<close>

fun keys_of :: "('a \<Rightarrow> error + pyfloat) \<Rightarrow> 'a list \<Rightarrow> error + (pyfloat \<times> 'a) list" where
  "keys_of f [] = Inr []"
| "keys_of f (x # xs) =
     (case f x of
        Inl err \<Rightarrow> Inl err
      | Inr k \<Rightarrow> (case keys_of f xs of Inl err \<Rightarrow> Inl err | Inr ks \<Rightarrow> Inr ((k, x) # ks)))"

fun insort_float :: "pyfloat \<times> 'a \<Rightarrow> (pyfloat \<times> 'a) list \<Rightarrow> (pyfloat \<times> 'a) list" where
  "insort_float kx [] = [kx]"
| "insort_float kx (ky # ys) =
     (if float_less (fst ky) (fst kx) then ky # insort_float kx ys else kx # ky # ys)"

definition list_sort :: "('a \<Rightarrow> error + pyfloat) \<Rightarrow> 'a list \<Rightarrow> error + 'a list" where
  "list_sort f xs =
     (case keys_of f xs of
        Inl err \<Rightarrow> Inl err
      | Inr ks \<Rightarrow> Inr (map snd (foldr insort_float ks [])))"

definition table_head :: "ustr \<Rightarrow> ustr \<Rightarrow> ustr" where
  \<open>table_head mount_url mount_name =
     str ''{| class="wikitable sortable" style="font-size:100%;text-align:center;"'' @ [0xA]
     @ str ''|+ Cosina Voigtl'' @ [0xE4] @ str ''nder lenses for [['' @ mount_name
     @ str '']]<ref>{{Cite web |url='' @ mount_url @ str '' |title='' @ mount_name
     @ str '' Lenses |access-date=2024-03-12|website=Cosina Voigtl'' @ [0xE4]
     @ str ''nder}}</ref>'' @ [0xA]
     @ str ''! [[Focal length]] (mm) !! [[F-number]] !! Min. focus !! Name !! Lens const. !! [[Diaphragm (optics)|Aperture blades]] !! Dimensions (Diam.''
     @ [0xD7]
     @ str ''Length) !! Weight !! [[Photographic filter#Filter sizes and mountings|Filter size]] !! class="unsortable" | Ref.''
     @ [0xA]\<close>

definition table_row :: "lens \<Rightarrow> ustr" where
  "table_row lens =
     str ''|-'' @ [0xA]
     @ str ''| '' @ get_default lens (str ''focal_length'') [] @ [0xA]
     @ str ''| '' @ get_default lens (str ''f_number'') [] @ [0xA]
     @ str ''| '' @ get_default lens (str ''min_focus'') [] @ [0xA]
     @ str ''| '' @ replace (get_default lens (str ''name'') []) (str ''Aspherical'')
                      (str ''[[aspheric lens|Asph.]]'') @ [0xA]
     @ str ''| '' @ get_default lens (str ''lens_const'') [] @ [0xA]
     @ str ''| '' @ get_default lens (str ''aperture_blades'') [] @ [0xA]
     @ str ''| '' @ get_default lens (str ''dimensions'') [] @ [0xA]
     @ str ''| '' @ get_default lens (str ''weight'') [] @ [0xA]
     @ str ''| '' @ get_default lens (str ''filter_size'') [] @ [0xA]
     @ str ''| <ref>{{cite web|url='' @ get_printed lens (str ''reference'')
     @ str ''|title='' @ get_printed lens (str ''name'')
     @ str ''|website=Cosina Voigtl'' @ [0xE4] @ str ''nder|access-date=2024-03-12}}</ref>'' @ [0xA]"

text \<open>
  \<^verbatim>\<open>crawl_mount\<close> from the sort on: the lenses read from the pages are sorted, and the
  table is the head, one row per lens in the sorted order, and the closing line.
\<close>

definition render_table :: "ustr \<Rightarrow> ustr \<Rightarrow> lens list \<Rightarrow> error + ustr" where
  "render_table mount_url mount_name lenses =
     (case list_sort focal_key lenses of
        Inl err \<Rightarrow> Inl err
      | Inr sorted_lenses \<Rightarrow>
          Inr (table_head mount_url mount_name @ concat (map table_row sorted_lenses) @ str ''|}''))"

section \<open>Sample inputs\<close>

text \<open>
  A small site for the examples below: every URL hashes to the same cache key, the
  network answers 404 for one URL, fails for another and answers 200 otherwise.
\<close>

definition demo_env :: env where
  "demo_env = \<lparr>md5_hexdigest = (\<lambda>url. str ''k''),
     http_get = (\<lambda>n url. if url = str ''gone'' then Inr \<lparr>status_code = 404, resp_text = str ''no''\<rparr>
                   else if url = str ''down'' then Inl ConnectionError
                   else Inr \<lparr>status_code = 200, resp_text = str ''ok''\<rparr>),
     select_mounts = (\<lambda>content.
        [\<lparr>href = Some (str ''a''), item_name = Some (str ''VM'')\<rparr>,
         \<lparr>href = Some (str ''b''), item_name = Some (str ''ACCESSORIES'')\<rparr>,
         \<lparr>href = Some (str ''c''), item_name = Some (str ''VM'')\<rparr>,
         \<lparr>href = Some (str ''d''), item_name = Some (str ''E'')\<rparr>]),
     anchors = (\<lambda>content.
        [str ''/voigtlander/vm/'', str ''/voigtlander/vm/50/'', str ''/voigtlander/e/35/'',
         str ''/voigtlander/vm/50/'', str ''/about/''])\<rparr>"

definition demo_world :: world where
  "demo_world = \<lparr>files = [str ''cache/k.html'' \<mapsto> str ''page''], requests = []\<rparr>"

definition empty_world :: world where
  "empty_world = \<lparr>files = Map.empty, requests = []\<rparr>"


section \<open>Properties of the fetch cache\<close>

lemma demo_cache_path: "cache_path demo_env url = str ''cache/k.html''"
  by (simp add: demo_env_def cache_path_def path_join_def CACHE_DIR_def str_def startswith_def suffix_to_prefix)

lemma demo_fetch: "fetch_with_cache demo_env url demo_world = (Inr (str ''page''), demo_world)"
  by (simp add: fetch_with_cache_def demo_cache_path) (simp add: demo_world_def)


text \<open>
  Claim C9. For every URL: when the cache file of the URL exists, \<open>fetch_with_cache\<close>
  returns its content and leaves the world as it is, the request log included (no network
  call). Otherwise it performs one GET (the log grows by exactly this URL); when the GET
  gives a response, an error is raised exactly when the status is a failure (400 to 599),
  and then no file is written; on success the body is stored under the path computed
  from the URL and returned. A GET that raises by itself propagates, and writes nothing.
\<close>

theorem fetch_with_cache_contract:
  "(\<forall>body. files w (cache_path e url) = Some body \<longrightarrow>
       fetch_with_cache e url w = (Inr body, w))
   \<and> (files w (cache_path e url) = None \<longrightarrow>
        requests (snd (fetch_with_cache e url w)) = requests w @ [url]
      \<and> (\<forall>r. http_get e (length (requests w)) url = Inr r \<longrightarrow>
            (isl (fst (fetch_with_cache e url w)) \<longleftrightarrow> 400 \<le> status_code r \<and> status_code r < 600)
          \<and> (400 \<le> status_code r \<and> status_code r < 600 \<longrightarrow>
                fetch_with_cache e url w = (Inl HTTPError, w\<lparr>requests := requests w @ [url]\<rparr>))
          \<and> (\<not> (400 \<le> status_code r \<and> status_code r < 600) \<longrightarrow>
                fetch_with_cache e url w =
                  (Inr (resp_text r),
                   w\<lparr>requests := requests w @ [url],
                     files := (files w)(cache_path e url \<mapsto> resp_text r)\<rparr>)))
      \<and> (\<forall>err. http_get e (length (requests w)) url = Inl err \<longrightarrow>
            fetch_with_cache e url w = (Inl err, w\<lparr>requests := requests w @ [url]\<rparr>)))"
  by (auto simp: fetch_with_cache_def raise_for_status_def Let_def split: sum.splits)

theorem fetch_with_cache_contract_witness:
  "fetch_with_cache demo_env BASE_URL demo_world = (Inr (str ''page''), demo_world)
   \<and> fetch_with_cache demo_env (str ''gone'') empty_world
       = (Inl HTTPError, \<lparr>files = Map.empty, requests = [str ''gone'']\<rparr>)
   \<and> fetch_with_cache demo_env (str ''lens'') empty_world
       = (Inr (str ''ok''), \<lparr>files = [str ''cache/k.html'' \<mapsto> str ''ok''], requests = [str ''lens'']\<rparr>)
   \<and> fetch_with_cache demo_env (str ''down'') empty_world
       = (Inl ConnectionError, \<lparr>files = Map.empty, requests = [str ''down'']\<rparr>)"
proof -
  have hit: "files demo_world (cache_path demo_env BASE_URL) = Some (str ''page'')"
    by (simp add: demo_cache_path) (simp add: demo_world_def)
  have miss: "files empty_world (cache_path demo_env url) = None" for url
    by (simp add: empty_world_def)
  have gone: "http_get demo_env (length (requests empty_world)) (str ''gone'')
      = Inr \<lparr>status_code = 404, resp_text = str ''no''\<rparr>"
    by (simp add: demo_env_def)
  have lens: "http_get demo_env (length (requests empty_world)) (str ''lens'')
      = Inr \<lparr>status_code = 200, resp_text = str ''ok''\<rparr>"
    by (simp add: demo_env_def str_def)
  have down: "http_get demo_env (length (requests empty_world)) (str ''down'') = Inl ConnectionError"
    by (simp add: demo_env_def str_def)
  from fetch_with_cache_contract [of demo_world demo_env BASE_URL] hit
  have 1: "fetch_with_cache demo_env BASE_URL demo_world = (Inr (str ''page''), demo_world)"
    by blast
  from fetch_with_cache_contract [of empty_world demo_env "str ''gone''"] miss gone
  have 2: "fetch_with_cache demo_env (str ''gone'') empty_world
       = (Inl HTTPError, empty_world\<lparr>requests := requests empty_world @ [str ''gone'']\<rparr>)"
    by simp
  from fetch_with_cache_contract [of empty_world demo_env "str ''lens''"] miss lens
  have 3: "fetch_with_cache demo_env (str ''lens'') empty_world
       = (Inr (str ''ok''), empty_world\<lparr>requests := requests empty_world @ [str ''lens''],
             files := (files empty_world)(cache_path demo_env (str ''lens'') \<mapsto> str ''ok'')\<rparr>)"
    by simp
  from fetch_with_cache_contract [of empty_world demo_env "str ''down''"] miss down
  have 4: "fetch_with_cache demo_env (str ''down'') empty_world
       = (Inl ConnectionError, empty_world\<lparr>requests := requests empty_world @ [str ''down'']\<rparr>)"
    by simp
  from 1 2 3 4 show ?thesis
    by (simp add: demo_cache_path) (simp add: empty_world_def)
qed


section \<open>Properties of the site navigator\<close>

lemma rstrip_append_same: "rstrip (s @ str ''/'') (str ''/'') = rstrip s (str ''/'')"
  by (simp add: rstrip_def str_def)

lemma rstrip_idem: "rstrip (rstrip s cs) cs = rstrip s cs"
  by (simp add: rstrip_def dropWhile_idem)

lemma lens_link_loop_eq:
  "lens_link_loop as mount_url acc =
     acc \<union> {h \<in> set as. startswith h mount_url
               \<and> rstrip h (str ''/'') \<noteq> rstrip mount_url (str ''/'')}"
  by (induction as arbitrary: acc) auto


text \<open>
  Claim C7. For every mount URL whose page is fetched, and every anchor \<^verbatim>\<open>href\<close> of the
  page that contains the marker \<^verbatim>\<open>voigtlander\<close>: the link is kept if and only if it starts
  with the mount URL and differs from it once the trailing slashes of both are stripped.
  The mount URL itself, with one more slash or with its trailing slashes removed, is never
  kept. The result is a set of URL strings: it holds exactly the links that pass, each
  once however many anchors carry it.
\<close>

theorem get_lens_links_kept_iff:
  assumes "fetch_with_cache e mount_url w = (Inr content, w')"
  shows "\<exists>links. get_lens_links e mount_url w = (Inr links, w')
     \<and> (\<forall>h\<in>set (anchors e content). contains h (str ''voigtlander'') \<longrightarrow>
          (h \<in> links \<longleftrightarrow> startswith h mount_url
              \<and> rstrip h (str ''/'') \<noteq> rstrip mount_url (str ''/'')))
     \<and> mount_url \<notin> links \<and> mount_url @ str ''/'' \<notin> links
     \<and> rstrip mount_url (str ''/'') \<notin> links
     \<and> links = {h \<in> set (anchors e content). contains h (str ''voigtlander'')
           \<and> startswith h mount_url
           \<and> rstrip h (str ''/'') \<noteq> rstrip mount_url (str ''/'')}"
proof -
  let ?links = "lens_link_loop (select_voigtlander e content) mount_url {}"
  have eq: "?links = {h \<in> set (anchors e content). contains h (str ''voigtlander'')
           \<and> startswith h mount_url
           \<and> rstrip h (str ''/'') \<noteq> rstrip mount_url (str ''/'')}"
    by (auto simp: lens_link_loop_eq select_voigtlander_def)
  have run: "get_lens_links e mount_url w = (Inr ?links, w')"
    by (simp add: get_lens_links_def assms)
  have own: "mount_url \<notin> ?links" by (simp add: eq)
  have slash: "mount_url @ str ''/'' \<notin> ?links"
    by (simp add: eq rstrip_append_same)
  have bare: "rstrip mount_url (str ''/'') \<notin> ?links"
    by (simp add: eq rstrip_idem)
  from run own slash bare eq show ?thesis by blast
qed

theorem get_lens_links_kept_iff_witness:
  "\<exists>links. get_lens_links demo_env (str ''/voigtlander/vm/'') demo_world = (Inr links, demo_world)
     \<and> links = {str ''/voigtlander/vm/50/''}"
proof -
  from get_lens_links_kept_iff [OF demo_fetch, of "str ''/voigtlander/vm/''"]
  obtain links where run: "get_lens_links demo_env (str ''/voigtlander/vm/'') demo_world = (Inr links, demo_world)"
    and eq: "links = {h \<in> set (anchors demo_env (str ''page'')). contains h (str ''voigtlander'')
           \<and> startswith h (str ''/voigtlander/vm/'')
           \<and> rstrip h (str ''/'') \<noteq> rstrip (str ''/voigtlander/vm/'') (str ''/'')}"
    by blast
  have "links = {str ''/voigtlander/vm/50/''}"
    unfolding eq by (auto simp: demo_env_def str_def startswith_def rstrip_def)
  with run show ?thesis by blast
qed

lemma mount_loop_append:
  "mount_loop (pre @ rest) m0 =
     (case mount_loop pre m0 of Inl err \<Rightarrow> Inl err | Inr m1 \<Rightarrow> mount_loop rest m1)"
  by (induction pre arbitrary: m0) (auto split: option.splits)

lemma mount_loop_total:
  "\<forall>i\<in>set items. href i \<noteq> None \<and> item_name i \<noteq> None \<Longrightarrow> \<exists>m. mount_loop items m0 = Inr m"
  by (induction items arbitrary: m0) (auto split: option.splits)

lemma mount_loop_other:
  "mount_loop items m0 = Inr m \<Longrightarrow> \<forall>j\<in>set items. item_name j \<noteq> Some n \<Longrightarrow> m n = m0 n"
  by (induction items arbitrary: m0) (auto split: option.splits if_splits)

lemma mount_loop_dom:
  "mount_loop items m0 = Inr m \<Longrightarrow>
   dom m = dom m0 \<union> {n. n \<noteq> str ''ACCESSORIES'' \<and> (\<exists>i\<in>set items. item_name i = Some n)}"
  by (induction items arbitrary: m0) (auto split: option.splits if_splits)

lemma mount_loop_last:
  assumes "mount_loop (pre @ it # post) m0 = Inr m"
    and "item_name it = Some n" and "n \<noteq> str ''ACCESSORIES''"
    and "\<forall>j\<in>set post. item_name j \<noteq> Some n"
  shows "m n = href it"
proof -
  from assms(1) obtain m1 where m1: "mount_loop pre m0 = Inr m1"
    and rest: "mount_loop (it # post) m1 = Inr m"
    by (auto simp: mount_loop_append split: sum.splits)
  from rest assms(2,3) obtain url where url: "href it = Some url"
    and post: "mount_loop post (m1(n \<mapsto> url)) = Inr m"
    by (auto split: option.splits)
  from mount_loop_other [OF post assms(4)] url show ?thesis by simp
qed


text \<open>
  Claim C10. When the homepage is fetched and every element of the mount listing has an
  \<^verbatim>\<open>href\<close> and a name, mount discovery returns a mapping; a display name other than
  \<^verbatim>\<open>ACCESSORIES\<close> that occurs in the listing (once, twice or more often) is mapped to the
  URL of its last entry in document order; every discovered name has exactly one URL, and
  the discovered names are the names of the listing other than \<^verbatim>\<open>ACCESSORIES\<close>.
\<close>

theorem get_mount_pages_last_entry_wins:
  assumes "fetch_with_cache e BASE_URL w = (Inr content, w')"
    and "select_mounts e content = pre @ it # post"
    and "\<forall>i\<in>set (pre @ it # post). href i \<noteq> None \<and> item_name i \<noteq> None"
    and "item_name it = Some n" and "n \<noteq> str ''ACCESSORIES''"
    and "\<forall>j\<in>set post. item_name j \<noteq> Some n"
  shows "\<exists>mounts. get_mount_pages e w = (Inr mounts, w')
           \<and> mounts n = href it
           \<and> (\<forall>k\<in>dom mounts. \<exists>!url. mounts k = Some url)
           \<and> dom mounts = {k. k \<noteq> str ''ACCESSORIES''
                 \<and> (\<exists>i\<in>set (pre @ it # post). item_name i = Some k)}"
proof -
  from mount_loop_total [OF assms(3)] obtain m
    where m: "mount_loop (pre @ it # post) Map.empty = Inr m" by blast
  have "get_mount_pages e w = (Inr m, w')"
    by (simp add: get_mount_pages_def assms(1,2) m)
  moreover have "m n = href it"
    by (rule mount_loop_last [OF m assms(4,5,6)])
  moreover have "\<forall>k\<in>dom m. \<exists>!url. m k = Some url" by auto
  moreover have "dom m = {k. k \<noteq> str ''ACCESSORIES''
      \<and> (\<exists>i\<in>set (pre @ it # post). item_name i = Some k)}"
    using mount_loop_dom [OF m] by simp
  ultimately show ?thesis by blast
qed

theorem get_mount_pages_last_entry_wins_witness:
  "\<exists>mounts. get_mount_pages demo_env demo_world = (Inr mounts, demo_world)
     \<and> mounts (str ''VM'') = Some (str ''c'')"
proof -
  let ?pre = "[\<lparr>href = Some (str ''a''), item_name = Some (str ''VM'')\<rparr>,
         \<lparr>href = Some (str ''b''), item_name = Some (str ''ACCESSORIES'')\<rparr>]"
  let ?it = "\<lparr>href = Some (str ''c''), item_name = Some (str ''VM'')\<rparr>"
  let ?post = "[\<lparr>href = Some (str ''d''), item_name = Some (str ''E'')\<rparr>]"
  have sel: "select_mounts demo_env (str ''page'') = ?pre @ ?it # ?post"
    by (simp add: demo_env_def)
  have wf: "\<forall>i\<in>set (?pre @ ?it # ?post). href i \<noteq> None \<and> item_name i \<noteq> None"
    by simp
  have nm: "item_name ?it = Some (str ''VM'')" by simp
  have acc: "str ''VM'' \<noteq> str ''ACCESSORIES''" by (simp add: str_def)
  have post: "\<forall>j\<in>set ?post. item_name j \<noteq> Some (str ''VM'')" by (simp add: str_def)
  from get_mount_pages_last_entry_wins [OF demo_fetch sel wf nm acc post]
  show ?thesis by auto
qed

section \<open>Properties of the regular expressions\<close>

declare findall.simps [simp del]

lemma plus_none:
  "s = [] \<or> \<not> cls_ok c (hd s) \<Longrightarrow> match_here (Plus c # p) s opn caps = None"
  by (cases s) auto

lemma plus_greedy:
  "s \<noteq> [] \<Longrightarrow> cls_ok c (hd s) \<Longrightarrow> match_here p (dropWhile (cls_ok c) s) opn caps = Some r
   \<Longrightarrow> match_here (Plus c # p) s opn caps = Some r"
proof (induction s)
  case Nil
  then show ?case by simp
next
  case (Cons x xs)
  show ?case
  proof (cases "xs \<noteq> [] \<and> cls_ok c (hd xs)")
    case True
    with Cons have "match_here (Plus c # p) xs opn caps = Some r" by simp
    with Cons.prems show ?thesis by simp
  next
    case False
    then have none: "match_here (Plus c # p) xs opn caps = None"
      by (intro plus_none) auto
    from False have "dropWhile (cls_ok c) xs = xs" by (cases xs) auto
    with Cons.prems none show ?thesis by simp
  qed
qed

lemma plus_no_backtrack:
  assumes "\<And>t. t \<noteq> [] \<Longrightarrow> cls_ok c (hd t) \<Longrightarrow> match_here p t opn caps = None"
  shows "match_here (Plus c # p) s opn caps =
           (if s \<noteq> [] \<and> cls_ok c (hd s) then match_here p (dropWhile (cls_ok c) s) opn caps
            else None)"
proof (induction s)
  case Nil
  then show ?case by simp
next
  case (Cons x xs)
  show ?case
  proof (cases "cls_ok c x")
    case False
    then show ?thesis by simp
  next
    case True
    show ?thesis
    proof (cases "xs \<noteq> [] \<and> cls_ok c (hd xs)")
      case yes: True
      then have "match_here p xs opn caps = None" by (simp add: assms)
      with True yes Cons.IH show ?thesis by (simp split: option.splits)
    next
      case no: False
      then have "match_here (Plus c # p) xs opn caps = None"
        by (intro plus_none) auto
      moreover from no have "dropWhile (cls_ok c) xs = xs" by (cases xs) auto
      ultimately show ?thesis using True by simp
    qed
  qed
qed

lemma take_length_dropWhile:
  "take (length s - length (dropWhile P s)) s = takeWhile P s"
proof -
  have "length s - length (dropWhile P s) = length (takeWhile P s)"
    by (metis add_diff_cancel_right' length_append takeWhile_dropWhile_id)
  then show ?thesis by (metis takeWhile_eq_take)
qed

lemma take_length_suffix: "take (length (w @ s) - length s) (w @ s) = w"
  by simp

lemma todecimal_marks: "todecimal 0x7FA4 = None" "todecimal 0x679A = None" "todecimal 0x2E = None"
  unfolding todecimal_def decimal_zeros_def by simp_all

lemma not_decimal_marks: "\<not> is_decimal 0x7FA4" "\<not> is_decimal 0x679A" "\<not> is_decimal 0x2E"
  unfolding is_decimal_def by (simp_all only: todecimal_marks not_not)

lemma cls_ok_simps:
  "cls_ok [Dec] x = is_decimal x"
  "cls_ok [Lit a] x = (x = a)"
  "cls_ok [Dec, Lit a] x = (is_decimal x \<or> x = a)"
  by (simp_all add: cls_ok_def)

lemma match_numeric:
  "match_here numeric_re s None [] =
     (if s \<noteq> [] \<and> cls_ok [Dec, Lit 0x2E] (hd s)
      then Some ([], dropWhile (cls_ok [Dec, Lit 0x2E]) s) else None)"
proof (cases "s \<noteq> [] \<and> cls_ok [Dec, Lit 0x2E] (hd s)")
  case True
  then show ?thesis
    unfolding numeric_re_def by (simp add: plus_greedy)
next
  case False
  then show ?thesis
    unfolding numeric_re_def by (simp add: plus_none)
qed

lemma findall_numeric_Nil: "findall numeric_re [] = []"
  by (simp add: findall.simps match_numeric)

lemma findall_numeric_Cons:
  "findall numeric_re (x # xs) =
     (if cls_ok [Dec, Lit 0x2E] x
      then takeWhile (cls_ok [Dec, Lit 0x2E]) (x # xs) # findall numeric_re (dropWhile (cls_ok [Dec, Lit 0x2E]) xs)
      else findall numeric_re xs)"
proof (cases "cls_ok [Dec, Lit 0x2E] x")
  case False
  then show ?thesis
    by (subst findall.simps) (simp add: match_numeric)
next
  case True
  have len: "length (dropWhile (cls_ok [Dec, Lit 0x2E]) xs) < Suc (length xs)"
    by (simp add: length_dropWhile_le less_Suc_eq_le)
  have tk: "take (Suc (length xs) - length (dropWhile (cls_ok [Dec, Lit 0x2E]) xs)) (x # xs)
      = x # takeWhile (cls_ok [Dec, Lit 0x2E]) xs"
    using take_length_dropWhile [of "x # xs" "cls_ok [Dec, Lit 0x2E]"] True by simp
  show ?thesis
    by (subst findall.simps) (simp add: match_numeric True len tk)
qed

lemma findall_numeric_empty_iff:
  "findall numeric_re s = [] \<longleftrightarrow> (\<forall>c\<in>set s. \<not> (is_decimal c \<or> c = 0x2E))"
  by (induction s) (auto simp: findall_numeric_Nil findall_numeric_Cons cls_ok_simps)

lemma findall_numeric_first:
  "findall numeric_re s \<noteq> [] \<Longrightarrow>
   hd (findall numeric_re s)
     = takeWhile (\<lambda>c. is_decimal c \<or> c = 0x2E) (dropWhile (\<lambda>c. \<not> (is_decimal c \<or> c = 0x2E)) s)"
proof (induction s)
  case Nil
  then show ?case by (simp add: findall_numeric_Nil)
next
  case (Cons x xs)
  have eq: "cls_ok [Dec, Lit 0x2E] = (\<lambda>c. is_decimal c \<or> c = 0x2E)"
    by (rule ext) (simp add: cls_ok_simps)
  show ?case
  proof (cases "is_decimal x \<or> x = 0x2E")
    case True
    then show ?thesis by (auto simp: findall_numeric_Cons eq)
  next
    case False
    with Cons show ?thesis by (simp add: findall_numeric_Cons eq)
  qed
qed

section \<open>Properties of the field normalizers\<close>

lemma contains_single: "contains s [a] \<longleftrightarrow> a \<in> set s"
  by (induction s) auto

lemma todecimal_low: "c < 0x660 \<Longrightarrow> todecimal c = (if 0x30 \<le> c \<and> c \<le> 0x39 then Some (c - 0x30) else None)"
  unfolding todecimal_def decimal_zeros_def by auto

lemma is_decimal_low: "c < 0x660 \<Longrightarrow> is_decimal c = (0x30 \<le> c \<and> c \<le> 0x39)"
  by (simp add: is_decimal_def todecimal_low)

lemma index_0: "xs \<noteq> [] \<Longrightarrow> index xs 0 = Inr (hd xs)"
  by (cases xs) (simp_all add: index_def)

lemma unit_target_eq:
  "(case [str ''m'' \<mapsto> str ''m|ft''] unit of Some t \<Rightarrow> t | None \<Rightarrow> unit)
     = (if unit = str ''m'' then str ''m|ft'' else unit)"
  by simp

text \<open>
  Claim C3. For every value and unit, \<open>format_cvt\<close> returns a text. When the value
  contains the multiplication sign U+00D7, the result is one \<^verbatim>\<open>cvt\<close> template that joins
  all the numeric substrings with the separator \<^verbatim>\<open>|\<close>, U+00D7, \<^verbatim>\<open>|\<close>. Otherwise, when
  there is a numeric substring, the result is a \<^verbatim>\<open>cvt\<close> template with the first one; and
  when there is none, the result is the value itself. The unit \<^verbatim>\<open>m\<close> is written
  \<^verbatim>\<open>m|ft\<close>, every other unit as it is. The numeric substrings are the maximal runs of
  decimal digits and full stops: there is none exactly when the value has no such
  character, and the first one is the run that begins at the first such character.
\<close>

theorem format_cvt_cases:
  "(contains value [0xD7] \<longrightarrow>
      format_cvt value unit =
        Inr (str ''{{cvt|'' @ join (str ''|'' @ [0xD7] @ str ''|'') (findall numeric_re value)
             @ str ''|'' @ (if unit = str ''m'' then str ''m|ft'' else unit) @ str ''}}''))
   \<and> (\<not> contains value [0xD7] \<and> findall numeric_re value \<noteq> [] \<longrightarrow>
      format_cvt value unit =
        Inr (str ''{{cvt|'' @ hd (findall numeric_re value)
             @ str ''|'' @ (if unit = str ''m'' then str ''m|ft'' else unit) @ str ''}}''))
   \<and> (\<not> contains value [0xD7] \<and> findall numeric_re value = [] \<longrightarrow>
      format_cvt value unit = Inr value)
   \<and> (contains value [0xD7] \<longleftrightarrow> 0xD7 \<in> set value)
   \<and> (findall numeric_re value = [] \<longleftrightarrow> (\<forall>c\<in>set value. \<not> (is_decimal c \<or> c = 0x2E)))
   \<and> (findall numeric_re value \<noteq> [] \<longrightarrow>
        hd (findall numeric_re value)
          = takeWhile (\<lambda>c. is_decimal c \<or> c = 0x2E)
              (dropWhile (\<lambda>c. \<not> (is_decimal c \<or> c = 0x2E)) value))"
proof -
  have 1: "contains value [0xD7] \<longrightarrow>
      format_cvt value unit =
        Inr (str ''{{cvt|'' @ join (str ''|'' @ [0xD7] @ str ''|'') (findall numeric_re value)
             @ str ''|'' @ (if unit = str ''m'' then str ''m|ft'' else unit) @ str ''}}'')"
    unfolding format_cvt_def Let_def unit_target_eq by simp
  have 2: "\<not> contains value [0xD7] \<and> findall numeric_re value \<noteq> [] \<longrightarrow>
      format_cvt value unit =
        Inr (str ''{{cvt|'' @ hd (findall numeric_re value)
             @ str ''|'' @ (if unit = str ''m'' then str ''m|ft'' else unit) @ str ''}}'')"
    unfolding format_cvt_def Let_def unit_target_eq by (simp add: index_0)
  have 3: "\<not> contains value [0xD7] \<and> findall numeric_re value = [] \<longrightarrow>
      format_cvt value unit = Inr value"
    unfolding format_cvt_def Let_def by simp
  from 1 2 3 contains_single [of "value" "0xD7"] findall_numeric_empty_iff [of "value"]
    findall_numeric_first [of "value"]
  show ?thesis by blast
qed

lemmas numeric_eval = str_def findall_numeric_Cons findall_numeric_Nil cls_ok_simps is_decimal_low

theorem format_cvt_cases_witness:
  "format_cvt (str ''63.5'' @ [0xD7] @ str ''42mm'') (str ''mm'')
      = Inr (str ''{{cvt|63.5|'' @ [0xD7] @ str ''|42|mm}}'')
   \<and> format_cvt (str ''35mm'') (str ''m'') = Inr (str ''{{cvt|35|m|ft}}'')
   \<and> format_cvt (str ''n/a'') (str ''g'') = Inr (str ''n/a'')"
proof -
  have x: "contains (str ''63.5'' @ [0xD7] @ str ''42mm'') [0xD7]"
    by (simp add: contains_single)
  have nx1: "\<not> contains (str ''35mm'') [0xD7]" by (simp add: contains_single str_def)
  have nx2: "\<not> contains (str ''n/a'') [0xD7]" by (simp add: contains_single str_def)
  from format_cvt_cases [of "str ''63.5'' @ [0xD7] @ str ''42mm''" "str ''mm''"] x
  have a: "format_cvt (str ''63.5'' @ [0xD7] @ str ''42mm'') (str ''mm'')
      = Inr (str ''{{cvt|63.5|'' @ [0xD7] @ str ''|42|mm}}'')"
    by (simp add: numeric_eval)
  from format_cvt_cases [of "str ''35mm''" "str ''m''"] nx1
  have b: "format_cvt (str ''35mm'') (str ''m'') = Inr (str ''{{cvt|35|m|ft}}'')"
    by (simp add: numeric_eval)
  from format_cvt_cases [of "str ''n/a''" "str ''g''"] nx2
  have c: "format_cvt (str ''n/a'') (str ''g'') = Inr (str ''n/a'')"
    by (simp add: numeric_eval)
  from a b c show ?thesis by simp
qed

text \<open>The match of the lens-construction pattern, written out.\<close>

lemma close_one:
  "match_here (GClose # One [Lit a] # p) r (Some s0) caps =
     (case r of
        [] \<Rightarrow> None
      | d # r' \<Rightarrow>
          if d \<noteq> a then None
          else match_here p r' None (caps @ [take (length s0 - length r) s0]))"
  by (cases r) (simp_all add: cls_ok_simps)

lemma plus_dec_then_lit:
  assumes "\<not> is_decimal a"
  shows "match_here (GOpen # Plus [Dec] # GClose # One [Lit a] # p) s None caps =
     (if takeWhile is_decimal s = [] then None
      else (case dropWhile is_decimal s of
              [] \<Rightarrow> None
            | d # r' \<Rightarrow>
                if d \<noteq> a then None
                else match_here p r' None (caps @ [takeWhile is_decimal s])))"
proof -
  have dec: "cls_ok [Dec] = is_decimal" by (rule ext) (simp add: cls_ok_simps)
  have fail: "match_here (GClose # One [Lit a] # p) t opn caps = None"
    if "t \<noteq> []" "cls_ok [Dec] (hd t)" for t opn
    using that assms by (cases t; cases opn) (auto simp: cls_ok_simps)
  have rw: "match_here (Plus [Dec] # GClose # One [Lit a] # p) t opn caps =
      (if t \<noteq> [] \<and> cls_ok [Dec] (hd t)
       then match_here (GClose # One [Lit a] # p) (dropWhile (cls_ok [Dec]) t) opn caps
       else None)" for t opn
    by (rule plus_no_backtrack) (rule fail)
  have nonempty: "(s \<noteq> [] \<and> is_decimal (hd s)) = (takeWhile is_decimal s \<noteq> [])"
    by (cases s) auto
  have "match_here (GOpen # Plus [Dec] # GClose # One [Lit a] # p) s None caps =
      (if takeWhile is_decimal s = [] then None
       else match_here (GClose # One [Lit a] # p) (dropWhile is_decimal s) (Some s) caps)"
    by (simp add: rw dec nonempty)
  then show ?thesis
    unfolding close_one take_length_dropWhile .
qed

text \<open>The match of the lens-construction pattern, written out.\<close>

lemma match_lens_const:
  "match_here lens_const_re s None [] =
     (if takeWhile is_decimal s = [] then None
      else (case dropWhile is_decimal s of
              [] \<Rightarrow> None
            | c # r2 \<Rightarrow>
                if c \<noteq> 0x7FA4 then None
                else if takeWhile is_decimal r2 = [] then None
                else (case dropWhile is_decimal r2 of
                        [] \<Rightarrow> None
                      | d # r4 \<Rightarrow>
                          if d \<noteq> 0x679A then None
                          else Some ([takeWhile is_decimal s, takeWhile is_decimal r2], r4))))"
  unfolding lens_const_re_def
  apply (subst plus_dec_then_lit)
   apply (rule not_decimal_marks)
  apply (subst plus_dec_then_lit)
   apply (rule not_decimal_marks)
  apply (unfold match_here.simps(1) append.simps)
  apply (rule refl)
  done

lemma takeWhile_run: "\<forall>c\<in>set n. P c \<Longrightarrow> \<not> P x \<Longrightarrow> takeWhile P (n @ x # r) = n"
  by (induction n) auto

lemma dropWhile_run: "\<forall>c\<in>set n. P c \<Longrightarrow> \<not> P x \<Longrightarrow> dropWhile P (n @ x # r) = x # r"
  by (induction n) auto

lemma format_lens_const_match:
  assumes "n \<noteq> []" "\<forall>c\<in>set n. is_decimal c" "e \<noteq> []" "\<forall>c\<in>set e. is_decimal c"
  shows "format_lens_const (n @ [0x7FA4] @ e @ [0x679A] @ rest) = Inr (e @ str ''e/'' @ n @ str ''g'')"
  using assms not_decimal_marks
  by (simp add: format_lens_const_def re_match_def match_lens_const takeWhile_run dropWhile_run
      del: One_nat_def)

lemma format_lens_const_no_match:
  assumes "\<not> (\<exists>n e rest. n \<noteq> [] \<and> (\<forall>c\<in>set n. is_decimal c) \<and> e \<noteq> [] \<and> (\<forall>c\<in>set e. is_decimal c)
            \<and> s = n @ [0x7FA4] @ e @ [0x679A] @ rest)"
  shows "format_lens_const s = Inr s"
proof (cases "match_here lens_const_re s None []")
  case None
  then show ?thesis by (simp add: format_lens_const_def re_match_def)
next
  case (Some r)
  let ?n = "takeWhile is_decimal s"
  from Some obtain r2 where n: "?n \<noteq> []" and r1: "dropWhile is_decimal s = 0x7FA4 # r2"
    by (auto simp: match_lens_const split: if_splits list.splits)
  let ?e = "takeWhile is_decimal r2"
  from Some n r1 obtain r4 where e: "?e \<noteq> []" and r3: "dropWhile is_decimal r2 = 0x679A # r4"
    by (auto simp: match_lens_const split: if_splits list.splits)
  have "s = ?n @ dropWhile is_decimal s" by simp
  also have "\<dots> = ?n @ [0x7FA4] @ (?e @ dropWhile is_decimal r2)" by (simp add: r1)
  also have "\<dots> = ?n @ [0x7FA4] @ ?e @ [0x679A] @ r4" by (simp add: r3)
  finally have "s = ?n @ [0x7FA4] @ ?e @ [0x679A] @ r4" .
  moreover have "\<forall>c\<in>set ?n. is_decimal c" "\<forall>c\<in>set ?e. is_decimal c"
    by (auto dest: set_takeWhileD)
  ultimately have False using assms n e by blast
  then show ?thesis ..
qed

text \<open>
  Claim C5. For every text that begins with decimal digits \<open>n\<close>, U+7FA4, decimal digits
  \<open>e\<close>, U+679A (the pattern of \<^verbatim>\<open>re.match\<close>, which matches at the start of the text and leaves
  what follows unread), \<open>format_lens_const\<close> returns \<open>e\<close>, \<^verbatim>\<open>e/\<close>, \<open>n\<close>, \<^verbatim>\<open>g\<close>; for
  every text that does not begin so, it returns the text unchanged.
\<close>

theorem format_lens_const_cases:
  "(\<forall>n e rest. n \<noteq> [] \<and> (\<forall>c\<in>set n. is_decimal c) \<and> e \<noteq> [] \<and> (\<forall>c\<in>set e. is_decimal c) \<longrightarrow>
       format_lens_const (n @ [0x7FA4] @ e @ [0x679A] @ rest) = Inr (e @ str ''e/'' @ n @ str ''g''))
   \<and> (\<not> (\<exists>n e rest. n \<noteq> [] \<and> (\<forall>c\<in>set n. is_decimal c) \<and> e \<noteq> [] \<and> (\<forall>c\<in>set e. is_decimal c)
            \<and> s = n @ [0x7FA4] @ e @ [0x679A] @ rest) \<longrightarrow>
       format_lens_const s = Inr s)"
  using format_lens_const_match format_lens_const_no_match [of s] by blast

theorem format_lens_const_cases_witness:
  "format_lens_const (str ''6'' @ [0x7FA4] @ str ''8'' @ [0x679A]) = Inr (str ''8e/6g'')
   \<and> format_lens_const (str ''12'' @ [0x7FA4] @ str ''15'' @ [0x679A] @ str '' (ASPH)'') = Inr (str ''15e/12g'')
   \<and> format_lens_const (str ''8 elements'') = Inr (str ''8 elements'')"
proof -
  have d: "\<forall>c\<in>set (str ''6''). is_decimal c" "\<forall>c\<in>set (str ''8''). is_decimal c"
    "\<forall>c\<in>set (str ''12''). is_decimal c" "\<forall>c\<in>set (str ''15''). is_decimal c"
    by (simp_all add: str_def is_decimal_low)
  have ne: "str ''6'' \<noteq> []" "str ''8'' \<noteq> []" "str ''12'' \<noteq> []" "str ''15'' \<noteq> []"
    by (simp_all add: str_def)
  from format_lens_const_cases [of "str ''8 elements''"] d ne
  have a: "format_lens_const (str ''6'' @ [0x7FA4] @ str ''8'' @ [0x679A] @ []) = Inr (str ''8'' @ str ''e/'' @ str ''6'' @ str ''g'')"
    by blast
  from format_lens_const_cases [of "str ''8 elements''"] d ne
  have b: "format_lens_const (str ''12'' @ [0x7FA4] @ str ''15'' @ [0x679A] @ str '' (ASPH)'')
      = Inr (str ''15'' @ str ''e/'' @ str ''12'' @ str ''g'')"
    by blast
  have no: "\<not> (\<exists>n e rest. n \<noteq> [] \<and> (\<forall>c\<in>set n. is_decimal c) \<and> e \<noteq> [] \<and> (\<forall>c\<in>set e. is_decimal c)
            \<and> str ''8 elements'' = n @ [0x7FA4] @ e @ [0x679A] @ rest)"
  proof
    assume "\<exists>n e rest. n \<noteq> [] \<and> (\<forall>c\<in>set n. is_decimal c) \<and> e \<noteq> [] \<and> (\<forall>c\<in>set e. is_decimal c)
            \<and> str ''8 elements'' = n @ [0x7FA4] @ e @ [0x679A] @ rest"
    then obtain n e rest where "str ''8 elements'' = n @ [0x7FA4] @ e @ [0x679A] @ rest" by blast
    then have "0x7FA4 \<in> set (str ''8 elements'')" by simp
    then show False by (simp add: str_def)
  qed
  from format_lens_const_cases [of "str ''8 elements''"] no
  have c: "format_lens_const (str ''8 elements'') = Inr (str ''8 elements'')" by blast
  from a b c show ?thesis by (simp add: str_def)
qed

declare match_here.simps [simp del]

lemmas match_one_opt = match_here.simps(4-7)

lemma not_decimal_space: "\<not> is_decimal 0x20" "\<not> is_decimal 0x3A"
  by (simp_all add: is_decimal_low)

lemma match_group_numeric:
  "match_here [GOpen, Plus [Dec, Lit 0x2E], GClose] t None caps =
     (if t \<noteq> [] \<and> (is_decimal (hd t) \<or> hd t = 0x2E)
      then Some (caps @ [takeWhile (\<lambda>c. is_decimal c \<or> c = 0x2E) t],
                 dropWhile (\<lambda>c. is_decimal c \<or> c = 0x2E) t)
      else None)"
proof -
  have eq: "cls_ok [Dec, Lit 0x2E] = (\<lambda>c. is_decimal c \<or> c = 0x2E)"
    by (rule ext) (simp add: cls_ok_simps)
  show ?thesis
  proof (cases "t \<noteq> [] \<and> (is_decimal (hd t) \<or> hd t = 0x2E)")
    case True
    have "match_here [GClose] (dropWhile (cls_ok [Dec, Lit 0x2E]) t) (Some t) caps
        = Some (caps @ [takeWhile (\<lambda>c. is_decimal c \<or> c = 0x2E) t],
                dropWhile (\<lambda>c. is_decimal c \<or> c = 0x2E) t)"
      by (simp add: eq take_length_dropWhile match_here.simps)
    with True have "match_here [Plus [Dec, Lit 0x2E], GClose] t (Some t) caps
        = Some (caps @ [takeWhile (\<lambda>c. is_decimal c \<or> c = 0x2E) t],
                dropWhile (\<lambda>c. is_decimal c \<or> c = 0x2E) t)"
      by (intro plus_greedy) (simp_all add: eq)
    with True show ?thesis by (simp add: match_here.simps)
  next
    case False
    then have "match_here [Plus [Dec, Lit 0x2E], GClose] t (Some t) caps = None"
      by (intro plus_none) (auto simp: eq)
    with False show ?thesis by (simp add: match_here.simps)
  qed
qed

lemma skip_space_decomp: "\<exists>sp. (sp = [] \<or> sp = [0x20]) \<and> w = sp @ skip_space w"
  by (cases w) (auto simp: skip_space_def)

lemma skip_space_other: "c \<noteq> 0x20 \<Longrightarrow> skip_space (c # t) = c # t"
  by (simp add: skip_space_def)

lemma skip_space_one: "skip_space (0x20 # t) = t"
  by (simp add: skip_space_def)

lemma opt_space_group:
  "match_here (Opt [Lit 0x20] # [GOpen, Plus [Dec, Lit 0x2E], GClose]) u None [] =
     match_here [GOpen, Plus [Dec, Lit 0x2E], GClose] (skip_space u) None []"
proof (cases u)
  case Nil
  then show ?thesis by (simp add: match_one_opt skip_space_def)
next
  case (Cons x xs)
  show ?thesis
  proof (cases "x = 0x20")
    case True
    have "match_here [GOpen, Plus [Dec, Lit 0x2E], GClose] (0x20 # xs) None [] = None"
      using not_decimal_space by (simp add: match_group_numeric)
    then show ?thesis
      using Cons True by (simp add: match_one_opt cls_ok_simps skip_space_one split: option.splits)
  next
    case False
    then show ?thesis
      using Cons by (simp add: match_one_opt cls_ok_simps skip_space_other)
  qed
qed

lemma opt_space_colon:
  "match_here (Opt [Lit 0x20] # One [Lit 0x3A] # p) w None [] =
     match_here (One [Lit 0x3A] # p) (skip_space w) None []"
proof (cases w)
  case Nil
  then show ?thesis by (simp add: match_one_opt skip_space_def)
next
  case (Cons x xs)
  show ?thesis
  proof (cases "x = 0x20")
    case True
    have "match_here (One [Lit 0x3A] # p) (0x20 # xs) None [] = None"
      by (simp add: match_one_opt cls_ok_simps)
    then show ?thesis
      using Cons True by (simp add: match_one_opt cls_ok_simps skip_space_one split: option.splits)
  next
    case False
    then show ?thesis
      using Cons by (simp add: match_one_opt cls_ok_simps skip_space_other)
  qed
qed

text \<open>The match of the f-number pattern at the start of a text, written out.\<close>

lemma match_f_number:
  "match_here f_number_re s None [] =
     (case s of
        [] \<Rightarrow> None
      | c # w \<Rightarrow>
          if c \<noteq> 0x31 then None
          else (case skip_space w of
                  [] \<Rightarrow> None
                | d # u \<Rightarrow>
                    if d \<noteq> 0x3A then None
                    else if skip_space u \<noteq> [] \<and> (is_decimal (hd (skip_space u)) \<or> hd (skip_space u) = 0x2E)
                    then Some ([takeWhile (\<lambda>c. is_decimal c \<or> c = 0x2E) (skip_space u)],
                               dropWhile (\<lambda>c. is_decimal c \<or> c = 0x2E) (skip_space u))
                    else None))"
proof (cases s)
  case Nil
  then show ?thesis by (simp add: f_number_re_def match_one_opt)
next
  case (Cons c w)
  show ?thesis
  proof (cases "c = 0x31")
    case False
    with Cons show ?thesis by (simp add: f_number_re_def match_one_opt cls_ok_simps)
  next
    case True
    have "match_here f_number_re s None [] =
        match_here (One [Lit 0x3A] # Opt [Lit 0x20] # [GOpen, Plus [Dec, Lit 0x2E], GClose])
          (skip_space w) None []"
      using Cons True by (simp add: f_number_re_def match_one_opt cls_ok_simps opt_space_colon)
    also have "\<dots> =
        (case skip_space w of
           [] \<Rightarrow> None
         | d # u \<Rightarrow>
             if d \<noteq> 0x3A then None
             else match_here [GOpen, Plus [Dec, Lit 0x2E], GClose] (skip_space u) None [])"
      by (cases "skip_space w") (simp_all add: match_one_opt cls_ok_simps opt_space_group)
    finally show ?thesis
      using Cons True unfolding match_group_numeric append_Nil by simp
  qed
qed

lemma match_f_number_Some:
  assumes "match_here f_number_re s None [] = Some r"
  shows "\<exists>sp1 sp2 c rest. (sp1 = [] \<or> sp1 = [0x20]) \<and> (sp2 = [] \<or> sp2 = [0x20])
        \<and> (is_decimal c \<or> c = 0x2E) \<and> s = [0x31] @ sp1 @ [0x3A] @ sp2 @ [c] @ rest"
proof -
  from assms obtain w where s: "s = 0x31 # w"
    by (auto simp: match_f_number split: list.splits if_splits)
  from assms s obtain u where w: "skip_space w = 0x3A # u"
    by (auto simp: match_f_number split: list.splits if_splits)
  from assms s w have t: "skip_space u \<noteq> []"
      "is_decimal (hd (skip_space u)) \<or> hd (skip_space u) = 0x2E"
    by (auto simp: match_f_number split: list.splits if_splits)
  then obtain c rest where cr: "skip_space u = c # rest" "is_decimal c \<or> c = 0x2E"
    by (cases "skip_space u") auto
  from skip_space_decomp [of w] obtain sp1 where sp1: "sp1 = [] \<or> sp1 = [0x20]" "w = sp1 @ skip_space w"
    by blast
  from skip_space_decomp [of u] obtain sp2 where sp2: "sp2 = [] \<or> sp2 = [0x20]" "u = sp2 @ skip_space u"
    by blast
  have "s = [0x31] @ sp1 @ [0x3A] @ sp2 @ [c] @ rest"
    using s w cr(1) sp1(2) sp2(2) by (metis append_Cons append_Nil)
  with sp1(1) sp2(1) cr(2) show ?thesis by blast
qed

lemma match_f_number_complete:
  assumes "sp1 = [] \<or> sp1 = [0x20]" "sp2 = [] \<or> sp2 = [0x20]" "is_decimal c \<or> c = 0x2E"
  shows "match_here f_number_re ([0x31] @ sp1 @ [0x3A] @ sp2 @ [c] @ rest) None [] =
     Some ([takeWhile (\<lambda>c. is_decimal c \<or> c = 0x2E) (c # rest)],
           dropWhile (\<lambda>c. is_decimal c \<or> c = 0x2E) (c # rest))"
proof -
  from assms(3) not_decimal_space have c: "c \<noteq> 0x20" by auto
  have 1: "skip_space (sp1 @ 0x3A # sp2 @ c # rest) = 0x3A # sp2 @ c # rest"
    using assms(1) by (auto simp: skip_space_def)
  have 2: "skip_space (sp2 @ c # rest) = c # rest"
    using assms(2) c by (auto simp: skip_space_def)
  show ?thesis
    using assms(3) by (simp add: match_f_number 1 2)
qed

lemma re_search_f_number_None:
  "\<not> f_number_present s \<Longrightarrow> re_search f_number_re s = None"
proof (induction s)
  case Nil
  then show ?case by (simp add: match_f_number)
next
  case (Cons x xs)
  have here: "match_here f_number_re (x # xs) None [] = None"
  proof (rule ccontr)
    assume "match_here f_number_re (x # xs) None [] \<noteq> None"
    then obtain r where "match_here f_number_re (x # xs) None [] = Some r" by blast
    from match_f_number_Some [OF this] have "f_number_present (x # xs)"
      by (metis append_Nil)
    with Cons.prems show False by blast
  qed
  have "\<not> f_number_present xs"
  proof
    assume "f_number_present xs"
    then obtain pre sp1 sp2 c rest where
      "(sp1 = [] \<or> sp1 = [0x20]) \<and> (sp2 = [] \<or> sp2 = [0x20]) \<and> (is_decimal c \<or> c = 0x2E)
        \<and> xs = pre @ [0x31] @ sp1 @ [0x3A] @ sp2 @ [c] @ rest"
      by blast
    then have "(sp1 = [] \<or> sp1 = [0x20]) \<and> (sp2 = [] \<or> sp2 = [0x20]) \<and> (is_decimal c \<or> c = 0x2E)
        \<and> x # xs = (x # pre) @ [0x31] @ sp1 @ [0x3A] @ sp2 @ [c] @ rest" by simp
    then have "f_number_present (x # xs)" by blast
    with Cons.prems show False by blast
  qed
  with Cons.IH have "re_search f_number_re xs = None" by blast
  with here show ?case by simp
qed

lemma re_search_f_number_Some:
  "f_number_present s \<Longrightarrow>
   \<exists>g. g \<noteq> [] \<and> (\<forall>c\<in>set g. is_decimal c \<or> c = 0x2E) \<and> re_search f_number_re s = Some [g]"
proof (induction s)
  case Nil
  then show ?case by simp
next
  case (Cons x xs)
  show ?case
  proof (cases "match_here f_number_re (x # xs) None []")
    case (Some r)
    then have "r = ([takeWhile (\<lambda>c. is_decimal c \<or> c = 0x2E) (skip_space (tl (skip_space xs)))],
        dropWhile (\<lambda>c. is_decimal c \<or> c = 0x2E) (skip_space (tl (skip_space xs))))
        \<and> skip_space (tl (skip_space xs)) \<noteq> []
        \<and> (is_decimal (hd (skip_space (tl (skip_space xs)))) \<or> hd (skip_space (tl (skip_space xs))) = 0x2E)"
      by (auto simp: match_f_number split: list.splits if_splits)
    moreover have "takeWhile P t \<noteq> []" if "t \<noteq> []" "P (hd t)" for P and t :: ustr
      using that by (cases t) auto
    ultimately show ?thesis
      using Some by (auto dest: set_takeWhileD)
  next
    case None
    from Cons.prems obtain pre sp1 sp2 c rest where d:
      "sp1 = [] \<or> sp1 = [0x20]" "sp2 = [] \<or> sp2 = [0x20]" "is_decimal c \<or> c = 0x2E"
      "x # xs = pre @ [0x31] @ sp1 @ [0x3A] @ sp2 @ [c] @ rest"
      by blast
    have "pre \<noteq> []"
    proof
      assume "pre = []"
      with d(4) match_f_number_complete [OF d(1,2,3), of rest] None show False by simp
    qed
    then obtain pre' where "pre = x # pre'" "xs = pre' @ [0x31] @ sp1 @ [0x3A] @ sp2 @ [c] @ rest"
      using d(4) by (cases pre) auto
    with d(1,2,3) have "f_number_present xs" by blast
    with Cons.IH None show ?thesis by simp
  qed
qed

lemma format_f_number_examples:
  "format_f_number (str ''1:2.5'') = Inr (str ''{{f/|2.5}}'')"
  "format_f_number (str ''1 : 2.5'') = Inr (str ''{{f/|2.5}}'')"
  by (simp_all add: format_f_number_def str_def match_f_number skip_space_def is_decimal_low
      index_def)

text \<open>
  Claim C6. \<open>format_f_number\<close> maps \<^verbatim>\<open>1:2.5\<close> and \<^verbatim>\<open>1 : 2.5\<close> to the same text, the
  template \<^verbatim>\<open>{{f/|2.5}}\<close>. For every text in which the pattern does not occur (a \<^verbatim>\<open>1\<close>, an
  optional blank, a colon, an optional blank and a character that is a decimal digit or
  a full stop, anywhere in the text), the result is the text unchanged; and for every
  text in which it occurs, the result is a template \<^verbatim>\<open>{{f/|g}}\<close> whose \<open>g\<close> is a non-empty run
  of decimal digits and full stops.
\<close>

theorem format_f_number_cases:
  "format_f_number (str ''1:2.5'') = Inr (str ''{{f/|2.5}}'')
   \<and> format_f_number (str ''1 : 2.5'') = Inr (str ''{{f/|2.5}}'')
   \<and> (\<not> (\<exists>pre sp1 sp2 c rest. (sp1 = [] \<or> sp1 = [0x20]) \<and> (sp2 = [] \<or> sp2 = [0x20])
            \<and> (is_decimal c \<or> c = 0x2E)
            \<and> s = pre @ [0x31] @ sp1 @ [0x3A] @ sp2 @ [c] @ rest) \<longrightarrow>
        format_f_number s = Inr s)
   \<and> ((\<exists>pre sp1 sp2 c rest. (sp1 = [] \<or> sp1 = [0x20]) \<and> (sp2 = [] \<or> sp2 = [0x20])
            \<and> (is_decimal c \<or> c = 0x2E)
            \<and> s = pre @ [0x31] @ sp1 @ [0x3A] @ sp2 @ [c] @ rest) \<longrightarrow>
        (\<exists>g. g \<noteq> [] \<and> (\<forall>c\<in>set g. is_decimal c \<or> c = 0x2E)
           \<and> format_f_number s = Inr (str ''{{f/|'' @ g @ str ''}}'')))"
proof -
  have absent: "format_f_number s = Inr s" if "\<not> f_number_present s"
    using re_search_f_number_None [OF that] by (simp add: format_f_number_def)
  have present: "\<exists>g. g \<noteq> [] \<and> (\<forall>c\<in>set g. is_decimal c \<or> c = 0x2E)
           \<and> format_f_number s = Inr (str ''{{f/|'' @ g @ str ''}}'')" if "f_number_present s"
  proof -
    from re_search_f_number_Some [OF that] obtain g where
      g: "g \<noteq> []" "\<forall>c\<in>set g. is_decimal c \<or> c = 0x2E" "re_search f_number_re s = Some [g]"
      by blast
    from g(3) have "format_f_number s = Inr (str ''{{f/|'' @ g @ str ''}}'')"
      by (simp add: format_f_number_def index_def)
    with g(1,2) show ?thesis by blast
  qed
  from format_f_number_examples absent present show ?thesis by blast
qed

theorem format_f_number_cases_witness:
  "format_f_number (str ''F2.8'') = Inr (str ''F2.8'')
   \<and> (\<exists>g. g \<noteq> [] \<and> format_f_number (str ''f 1 : 1.5'') = Inr (str ''{{f/|'' @ g @ str ''}}''))"
proof -
  have no: "\<not> f_number_present (str ''F2.8'')"
  proof
    assume "f_number_present (str ''F2.8'')"
    then obtain pre sp1 sp2 c rest
      where "str ''F2.8'' = pre @ [0x31] @ sp1 @ [0x3A] @ sp2 @ [c] @ rest" by blast
    then have "0x3A \<in> set (str ''F2.8'')" by simp
    then show False by (simp add: str_def)
  qed
  have "str ''f 1 : 1.5'' = str ''f '' @ [0x31] @ [0x20] @ [0x3A] @ [0x20] @ [0x31] @ str ''.5''"
    by (simp add: str_def)
  moreover have "is_decimal 0x31" by (simp add: is_decimal_low)
  ultimately have yes: "f_number_present (str ''f 1 : 1.5'')" by blast
  from format_f_number_cases [of "str ''F2.8''"] no
  have a: "format_f_number (str ''F2.8'') = Inr (str ''F2.8'')" by blast
  from format_f_number_cases [of "str ''f 1 : 1.5''"] yes
  have b: "\<exists>g. g \<noteq> [] \<and> format_f_number (str ''f 1 : 1.5'') = Inr (str ''{{f/|'' @ g @ str ''}}'')"
    by blast
  from a b show ?thesis by blast
qed

section \<open>Properties of the focal-length normalizer\<close>

lemmas float_eval =
  py_float_def remove_underscores_def strip_space_def parse_decimal_def exponent_of_def
  digits_value_def decimal_to_double_def round_to_double_def bit_length.simps pow2_def Let_def
  ascii_digit_def ascii_space_def str_def parse_inf_or_nan_def tolower_def

lemmas focal_eval = format_focal_def color_of_def dx_def float_eval

lemma focal_boundaries:
  \<open>format_focal (str ''20.9'') = Inr (str ''! style = "background:#fdd;" |20.9'')\<close>
  \<open>format_focal (str ''21.0'') = Inr (str ''! style = "background:#fed;" |21.0'')\<close>
  \<open>format_focal (str ''39.9'') = Inr (str ''! style = "background:#fed;" |39.9'')\<close>
  \<open>format_focal (str ''40.0'') = Inr (str ''! style = "background:#ffd;" |40.0'')\<close>
  \<open>format_focal (str ''64.9'') = Inr (str ''! style = "background:#ffd;" |64.9'')\<close>
  \<open>format_focal (str ''65.0'') = Inr (str ''! style = "background:#dfd;" |65.0'')\<close>
  by (simp_all add: focal_eval)

lemma color_of_bands:
  "flt v 21 \<Longrightarrow> color_of v = str ''fdd''"
  "fge v 21 \<Longrightarrow> flt v 40 \<Longrightarrow> color_of v = str ''fed''"
  "fge v 40 \<Longrightarrow> flt v 65 \<Longrightarrow> color_of v = str ''ffd''"
  "fge v 65 \<Longrightarrow> color_of v = str ''dfd''"
  by (cases v; simp add: color_of_def)+

text \<open>
  Claim C4. The focal lengths \<^verbatim>\<open>20.9\<close>, \<^verbatim>\<open>21.0\<close>, \<^verbatim>\<open>39.9\<close>, \<^verbatim>\<open>40.0\<close>, \<^verbatim>\<open>64.9\<close> and \<^verbatim>\<open>65.0\<close>
  get the background colours \<^verbatim>\<open>fdd\<close>, \<^verbatim>\<open>fed\<close>, \<^verbatim>\<open>fed\<close>, \<^verbatim>\<open>ffd\<close>, \<^verbatim>\<open>ffd\<close> and \<^verbatim>\<open>dfd\<close>; and
  for every sort value \<open>v\<close> (a float), \<open>v < 21\<close> gives \<^verbatim>\<open>fdd\<close>, \<open>21 \<le> v < 40\<close> gives
  \<^verbatim>\<open>fed\<close>, \<open>40 \<le> v < 65\<close> gives \<^verbatim>\<open>ffd\<close> and \<open>v \<ge> 65\<close> gives \<^verbatim>\<open>dfd\<close>, with the
  comparisons of Python floats.
\<close>

theorem focal_color_bands:
  \<open>format_focal (str ''20.9'') = Inr (str ''! style = "background:#fdd;" |20.9'')
   \<and> format_focal (str ''21.0'') = Inr (str ''! style = "background:#fed;" |21.0'')
   \<and> format_focal (str ''39.9'') = Inr (str ''! style = "background:#fed;" |39.9'')
   \<and> format_focal (str ''40.0'') = Inr (str ''! style = "background:#ffd;" |40.0'')
   \<and> format_focal (str ''64.9'') = Inr (str ''! style = "background:#ffd;" |64.9'')
   \<and> format_focal (str ''65.0'') = Inr (str ''! style = "background:#dfd;" |65.0'')
   \<and> (flt v 21 \<longrightarrow> color_of v = str ''fdd'')
   \<and> (fge v 21 \<and> flt v 40 \<longrightarrow> color_of v = str ''fed'')
   \<and> (fge v 40 \<and> flt v 65 \<longrightarrow> color_of v = str ''ffd'')
   \<and> (fge v 65 \<longrightarrow> color_of v = str ''dfd'')\<close>
  using focal_boundaries color_of_bands [of v] by blast

theorem focal_color_bands_witness:
  "color_of (Finite 12) = str ''fdd'' \<and> color_of (Finite 21) = str ''fed''
   \<and> color_of (Finite 50) = str ''ffd'' \<and> color_of PosInf = str ''dfd''"
proof -
  have a: "color_of (Finite 12) = str ''fdd''"
    using focal_color_bands [of "Finite 12"] by simp
  have b: "color_of (Finite 21) = str ''fed''"
    using focal_color_bands [of "Finite 21"] by simp
  have c: "color_of (Finite 50) = str ''ffd''"
    using focal_color_bands [of "Finite 50"] by simp
  have d: "color_of PosInf = str ''dfd''"
    using focal_color_bands [of PosInf] by simp
  from a b c d show ?thesis by blast
qed

lemma contains_prefix: "prefix sub s \<Longrightarrow> contains s sub"
  by (cases s) auto

lemma contains_append: "contains (pre @ sub @ tail) sub"
  by (induction pre) (simp_all add: contains_prefix)

lemma prefix_shorter:
  assumes "prefix xs (ys @ zs)" "length xs \<le> length ys"
  shows "prefix xs ys"
proof -
  from assms(1) obtain r where "ys @ zs = xs @ r" by (auto simp: prefix_def)
  then have "take (length xs) (ys @ zs) = xs" by simp
  with assms(2) have "take (length xs) ys = xs" by simp
  then show ?thesis by (metis take_is_prefix)
qed

lemma no_early_prefix:
  assumes "\<not> prefix sep (x # p @ butlast sep)" "sep \<noteq> []"
  shows "\<not> prefix sep (x # p @ sep @ tail)"
proof
  assume "prefix sep (x # p @ sep @ tail)"
  moreover have "x # p @ sep @ tail = (x # p @ butlast sep) @ ([last sep] @ tail)"
    using assms(2) by simp
  moreover have "length sep \<le> length (x # p @ butlast sep)" by simp
  ultimately have "prefix sep (x # p @ butlast sep)"
    using prefix_shorter by metis
  with assms(1) show False by blast
qed

lemma split_loop_first:
  "\<not> contains (pre @ butlast sep) sep \<Longrightarrow> sep \<noteq> [] \<Longrightarrow>
   split_loop (pre @ sep @ tail) sep cur = (cur @ pre) # split_loop tail sep []"
proof (induction pre arbitrary: cur)
  case Nil
  then show ?case by (cases sep) auto
next
  case (Cons x p)
  from Cons.prems have "\<not> prefix sep (x # p @ butlast sep)" "\<not> contains (p @ butlast sep) sep"
    by auto
  with Cons.prems(2) Cons.IH [of "cur @ [x]"] no_early_prefix [of sep x p tail]
  show ?case by simp
qed

lemma split_loop_none:
  "\<not> contains s sep \<Longrightarrow> split_loop s sep cur = [cur @ s]"
  by (induction s arbitrary: cur) auto

lemma replace_none: "\<not> contains s old \<Longrightarrow> old \<noteq> [] \<Longrightarrow> replace s old new = s"
  by (induction s) auto

lemma replace_first:
  "\<not> contains (pre @ butlast old) old \<Longrightarrow> old \<noteq> [] \<Longrightarrow>
   replace (pre @ old @ tail) old new = pre @ new @ replace tail old new"
proof (induction pre)
  case Nil
  then show ?case by (cases old) auto
next
  case (Cons x p)
  from Cons.prems have "\<not> prefix old (x # p @ butlast old)" "\<not> contains (p @ butlast old) old"
    by auto
  with Cons.prems(2) Cons.IH no_early_prefix [of old x p tail]
  show ?case by simp
qed

lemma split_loop_nonempty: "split_loop s sep cur \<noteq> []"
  by (induction s sep cur rule: split_loop.induct) auto

lemma split_loop_length: "contains s sep \<Longrightarrow> sep \<noteq> [] \<Longrightarrow> 2 \<le> length (split_loop s sep cur)"
proof (induction s sep cur rule: split_loop.induct)
  case (1 sep cur)
  then show ?case by simp
next
  case (2 c s sep cur)
  show ?case
  proof (cases "prefix sep (c # s)")
    case True
    have "1 \<le> length (split_loop (drop (length sep) (c # s)) sep [])"
      using split_loop_nonempty [of "drop (length sep) (c # s)" sep "[]"]
      by (simp add: Suc_le_eq)
    with True 2 show ?thesis by simp
  next
    case False
    with 2 show ?thesis by simp
  qed
qed

lemma dx_nonempty: "dx \<noteq> []"
  by (simp add: dx_def)

lemma format_focal_eq:
  \<open>format_focal value0 =
     (case py_float (sort_text value0) of
        Inl err \<Rightarrow> Inl err
      | Inr x \<Rightarrow>
          Inr (str ''! style = "background:#'' @ color_of x @ str '';" ''
               @ (if contains (strip_units value0) dx
                  then str ''data-sort-value="'' @ sort_text value0 @ str ''"'' else [])
               @ str ''|''
               @ (if contains (strip_units value0) dx
                  then replace (strip_units value0) dx (str ''full frame equivalent: '')
                  else strip_units value0)))\<close>
proof (cases "contains (strip_units value0) dx")
  case True
  from split_loop_length [OF True dx_nonempty, of "[]"]
  have "index (split_loop (strip_units value0) dx []) 1 = Inr (split_loop (strip_units value0) dx [] ! 1)"
    by (simp add: index_def)
  with True show ?thesis
    by (simp add: format_focal_def sort_text_def strip_units_def [symmetric] split_def dx_nonempty
        Let_def split: sum.splits)
next
  case False
  then show ?thesis
    by (simp add: format_focal_def sort_text_def strip_units_def [symmetric] Let_def
        split: sum.splits)
qed

lemma py_float_error: "py_float s = Inl err \<Longrightarrow> err = ValueError"
  by (auto simp: py_float_def split: option.splits)

lemma format_focal_with_marker:
  assumes "strip_units value0 = pre @ dx @ num @ [c]"
    and "\<not> contains (pre @ butlast dx) dx" and "\<not> contains (num @ [c]) dx"
    and "py_float num = Inr x"
  shows \<open>format_focal value0 =
     Inr (str ''! style = "background:#'' @ color_of x @ str '';" data-sort-value="'' @ num
          @ str ''"|'' @ pre @ str ''full frame equivalent: '' @ num @ [c])\<close>
proof -
  have c: "contains (strip_units value0) dx"
    unfolding assms(1) by (rule contains_append)
  have sp: "split_loop (strip_units value0) dx [] = [pre, num @ [c]]"
    unfolding assms(1)
    by (simp add: split_loop_first [OF assms(2) dx_nonempty] split_loop_none [OF assms(3)])
  have st: "sort_text value0 = num"
    by (simp add: sort_text_def c sp)
  have rp: "replace (strip_units value0) dx (str ''full frame equivalent: '')
      = pre @ str ''full frame equivalent: '' @ num @ [c]"
    unfolding assms(1)
    by (simp add: replace_first [OF assms(2) dx_nonempty] replace_none [OF assms(3) dx_nonempty])
  show ?thesis
    by (simp add: format_focal_eq st c rp assms(4)) (simp add: str_def)
qed

lemma format_focal_without_marker:
  assumes "\<not> contains (strip_units value0) dx" and "py_float (strip_units value0) = Inr x"
  shows \<open>format_focal value0 =
     Inr (str ''! style = "background:#'' @ color_of x @ str '';" |'' @ strip_units value0)\<close>
  using assms by (simp add: format_focal_eq sort_text_def) (simp add: str_def)

text \<open>
  Claim C2, as the code has it. Let the stripped value be the focal-length value without
  \<^verbatim>\<open>mm\<close> and without U+7D04. When the stripped value consists of a text \<open>pre\<close>, the marker
  \<open>dx\<close>, a text \<open>num\<close> that \<^verbatim>\<open>float\<close> accepts and exactly one more character \<open>c\<close> (the
  closing bracket on the site's pages), the marker occurring nowhere else, then
  \<open>format_focal\<close> emits \<^verbatim>\<open>data-sort-value\<close> with exactly \<open>num\<close>, displays \<open>pre\<close>,
  \<^verbatim>\<open>full frame equivalent: \<close>, \<open>num\<close> and \<open>c\<close>, and takes the colour of the float of \<open>num\<close>.
  When the stripped value has no marker and \<^verbatim>\<open>float\<close> accepts it, there is no
  \<^verbatim>\<open>data-sort-value\<close>, the display is the stripped value and the colour is that of its
  float.
\<close>

theorem format_focal_sort_value:
  \<open>(\<forall>pre num c x.
       strip_units value0 = pre @ dx @ num @ [c] \<and> \<not> contains (pre @ butlast dx) dx
       \<and> \<not> contains (num @ [c]) dx \<and> py_float num = Inr x \<longrightarrow>
       format_focal value0 =
         Inr (str ''! style = "background:#'' @ color_of x @ str '';" data-sort-value="'' @ num
              @ str ''"|'' @ pre @ str ''full frame equivalent: '' @ num @ [c]))
   \<and> (\<forall>x. \<not> contains (strip_units value0) dx \<and> py_float (strip_units value0) = Inr x \<longrightarrow>
       format_focal value0 =
         Inr (str ''! style = "background:#'' @ color_of x @ str '';" |'' @ strip_units value0))\<close>
  using format_focal_with_marker [of value0] format_focal_without_marker [of value0] by blast

lemmas string_eval = str_def dx_def strip_units_def

theorem format_focal_sort_value_witness:
  \<open>format_focal ([0x7D04] @ str ''23mm('' @ dx @ str ''35mm)'')
      = Inr (str ''! style = "background:#fed;" data-sort-value="35"|23(full frame equivalent: 35)'')
   \<and> format_focal (str ''50mm'') = Inr (str ''! style = "background:#ffd;" |50'')\<close>
proof -
  have s1: "strip_units ([0x7D04] @ str ''23mm('' @ dx @ str ''35mm)'') = str ''23('' @ dx @ str ''35'' @ [0x29]"
    by (simp add: string_eval)
  have n1: "\<not> contains (str ''23('' @ butlast dx) dx" by (simp add: string_eval)
  have n2: "\<not> contains (str ''35'' @ [0x29]) dx" by (simp add: string_eval)
  have f1: "py_float (str ''35'') = Inr (Finite 35)" by (simp add: float_eval)
  from format_focal_sort_value [of "[0x7D04] @ str ''23mm('' @ dx @ str ''35mm)''"] s1 n1 n2 f1
  have a: \<open>format_focal ([0x7D04] @ str ''23mm('' @ dx @ str ''35mm)'') =
         Inr (str ''! style = "background:#'' @ color_of (Finite 35) @ str '';" data-sort-value="'' @ str ''35''
              @ str ''"|'' @ str ''23('' @ str ''full frame equivalent: '' @ str ''35'' @ [0x29])\<close>
    by blast
  have s2: "strip_units (str ''50mm'') = str ''50''" by (simp add: string_eval)
  have n3: "\<not> contains (strip_units (str ''50mm'')) dx" unfolding s2 by (simp add: string_eval)
  have f2: "py_float (strip_units (str ''50mm'')) = Inr (Finite 50)"
    unfolding s2 by (simp add: float_eval)
  from format_focal_sort_value [of "str ''50mm''"] n3 f2
  have b: \<open>format_focal (str ''50mm'') =
         Inr (str ''! style = "background:#'' @ color_of (Finite 50) @ str '';" |'' @ strip_units (str ''50mm''))\<close>
    by blast
  from a b show ?thesis
    by (simp add: s2) (simp add: color_of_def str_def)
qed

text \<open>
  Claim C2 as stated fails where the second number is not followed by exactly one
  character: the slice \<^verbatim>\<open>[:-1]\<close> removes the last character after the marker whatever it
  is. For \<^verbatim>\<open>23mm\<close>, a blank, the marker and \<^verbatim>\<open>35mm\<close> the sort value is \<^verbatim>\<open>3\<close>, not \<^verbatim>\<open>35\<close>,
  and the colour is that of 3.
\<close>

theorem format_focal_sort_value_counterexample:
  \<open>format_focal (str ''23mm '' @ dx @ str ''35mm'')
     = Inr (str ''! style = "background:#fdd;" data-sort-value="3"|23 full frame equivalent: 35'')\<close>
  by (simp add: focal_eval split_def index_def)

section \<open>Totality of the field normalizers\<close>

lemma re_match_lens_const_groups:
  "re_match lens_const_re s = Some gs \<Longrightarrow> \<exists>n e. gs = [n, e]"
  by (auto simp: re_match_def match_lens_const split: if_splits list.splits)

lemma format_lens_const_total: "\<exists>r. format_lens_const s = Inr r"
proof (cases "re_match lens_const_re s")
  case None
  then show ?thesis by (simp add: format_lens_const_def)
next
  case (Some gs)
  from re_match_lens_const_groups [OF Some] obtain n e where "gs = [n, e]" by blast
  with Some show ?thesis by (simp add: format_lens_const_def)
qed

lemma format_f_number_total: "\<exists>r. format_f_number s = Inr r"
proof (cases "f_number_present s")
  case True
  from re_search_f_number_Some [OF True] obtain g where "re_search f_number_re s = Some [g]"
    by blast
  then show ?thesis by (simp add: format_f_number_def index_def)
next
  case False
  from re_search_f_number_None [OF False] show ?thesis by (simp add: format_f_number_def)
qed

lemma format_cvt_total: "\<exists>r. format_cvt s u = Inr r"
  by (simp add: format_cvt_def Let_def index_0)

lemma format_focal_raises_iff:
  "format_focal s = Inl ValueError \<longleftrightarrow> py_float (sort_text s) = Inl ValueError"
  by (auto simp: format_focal_eq split: sum.splits dest: py_float_error)

lemma format_focal_only_ValueError: "format_focal s = Inl err \<Longrightarrow> err = ValueError"
  by (auto simp: format_focal_eq split: sum.splits dest: py_float_error)

lemma format_focal_returns: "py_float (sort_text s) = Inr x \<Longrightarrow> \<exists>r. format_focal s = Inr r"
  by (simp add: format_focal_eq)

text \<open>
  Claim C1, as the code has it. For every text, \<open>format_lens_const\<close>, \<open>format_f_number\<close>
  and \<open>format_cvt\<close> return a text and raise nothing; the first two return the input
  unchanged whenever their pattern is not found, and \<open>format_cvt\<close> returns it unchanged
  whenever the value has neither the multiplication sign nor a numeric substring.
  \<open>format_focal\<close> has no fallback: it raises \<^verbatim>\<open>ValueError\<close>, and nothing else, exactly when
  \<^verbatim>\<open>float\<close> refuses the text given to it (the stripped value, or with the marker the piece
  after it without its last character), and returns a text whenever \<^verbatim>\<open>float\<close> accepts it.
\<close>

theorem normalizers_total_or_ValueError:
  "(\<exists>r. format_lens_const s = Inr r)
   \<and> (\<exists>r. format_f_number s = Inr r)
   \<and> (\<exists>r. format_cvt s u = Inr r)
   \<and> (re_match lens_const_re s = None \<longrightarrow> format_lens_const s = Inr s)
   \<and> (re_search f_number_re s = None \<longrightarrow> format_f_number s = Inr s)
   \<and> (\<not> contains s [0xD7] \<and> findall numeric_re s = [] \<longrightarrow> format_cvt s u = Inr s)
   \<and> (format_focal s = Inl ValueError \<longleftrightarrow> py_float (sort_text s) = Inl ValueError)
   \<and> (\<forall>err. format_focal s = Inl err \<longrightarrow> err = ValueError)
   \<and> (\<forall>x. py_float (sort_text s) = Inr x \<longrightarrow> (\<exists>r. format_focal s = Inr r))"
proof -
  have a: "re_match lens_const_re s = None \<longrightarrow> format_lens_const s = Inr s"
    by (simp add: format_lens_const_def)
  have b: "re_search f_number_re s = None \<longrightarrow> format_f_number s = Inr s"
    by (simp add: format_f_number_def)
  have c: "\<not> contains s [0xD7] \<and> findall numeric_re s = [] \<longrightarrow> format_cvt s u = Inr s"
    by (simp add: format_cvt_def Let_def)
  from format_lens_const_total [of s] format_f_number_total [of s] format_cvt_total [of s u] a b c
    format_focal_raises_iff [of s] format_focal_only_ValueError [of s] format_focal_returns [of s]
  show ?thesis by blast
qed

theorem normalizers_total_or_ValueError_witness:
  "format_lens_const (str ''abc'') = Inr (str ''abc'')
   \<and> format_f_number (str ''abc'') = Inr (str ''abc'')
   \<and> format_cvt (str ''abc'') (str ''mm'') = Inr (str ''abc'')
   \<and> format_focal (str ''abc'') = Inl ValueError
   \<and> (\<exists>r. format_focal (str ''35mm'') = Inr r)"
proof -
  have m: "re_match lens_const_re (str ''abc'') = None"
    by (simp add: re_match_def match_lens_const str_def is_decimal_low)
  have f: "re_search f_number_re (str ''abc'') = None"
    by (simp add: match_f_number str_def)
  have x: "\<not> contains (str ''abc'') [0xD7] \<and> findall numeric_re (str ''abc'') = []"
    by (simp add: numeric_eval)
  have e: "py_float (sort_text (str ''abc'')) = Inl ValueError"
    by (simp add: sort_text_def string_eval float_eval)
  have o: "py_float (sort_text (str ''35mm'')) = Inr (Finite 35)"
    by (simp add: sort_text_def string_eval float_eval)
  from normalizers_total_or_ValueError [of "str ''abc''" "str ''mm''"] m f x e
  have 1: "format_lens_const (str ''abc'') = Inr (str ''abc'')
   \<and> format_f_number (str ''abc'') = Inr (str ''abc'')
   \<and> format_cvt (str ''abc'') (str ''mm'') = Inr (str ''abc'')
   \<and> format_focal (str ''abc'') = Inl ValueError"
    by blast
  from normalizers_total_or_ValueError [of "str ''35mm''" "str ''mm''"] o
  have 2: "\<exists>r. format_focal (str ''35mm'') = Inr r" by blast
  from 1 2 show ?thesis by blast
qed

text \<open>
  Claim C1 as stated fails for the focal-length normalizer: on a value that is not a
  number it raises \<^verbatim>\<open>ValueError\<close> instead of returning the value.
\<close>

theorem format_focal_raises_counterexample:
  "format_focal (str ''abc'') = Inl ValueError"
  by (simp add: focal_eval)

end
